theory Spec2Isabelle
  imports Main "HOL-Library.List_Lexorder" "HOL-Library.Char_ord"
begin

section \<open>Calendar dates\<close>

text \<open>
  The component works on JavaScript \<open>Date\<close> objects read in local time. A \<open>Date\<close> is
  kept as the number of its local calendar day, counted from 1970-01-01, together with
  the milliseconds since local midnight. The calendar functions below follow the
  definitions of the ECMAScript language specification (Day Number, Year Number,
  Month Number, Date Number, Week Day, MakeDay). Time values are taken inside the range
  where a \<open>Date\<close> is valid.
\<close>

record Date =
  localDay :: int
  msInDay :: nat

definition dayFromYear :: "int \<Rightarrow> int" where
  "dayFromYear y =
     365 * (y - 1970) + (y - 1969) div 4 - (y - 1901) div 100 + (y - 1601) div 400"

definition isLeapYear :: "int \<Rightarrow> bool" where
  "isLeapYear y = (y mod 4 = 0 \<and> (y mod 100 \<noteq> 0 \<or> y mod 400 = 0))"

definition daysInYear :: "int \<Rightarrow> int" where
  "daysInYear y = (if isLeapYear y then 366 else 365)"

text \<open>
  The year of a day number is the largest \<open>y\<close> with \<open>dayFromYear y \<le> t\<close>. It is computed
  from the mean year length and corrected by at most one year.
\<close>

definition yearFromDay :: "int \<Rightarrow> int" where
  "yearFromDay t =
     (let y = 1970 + (400 * t) div 146097
      in if t < dayFromYear y then y - 1
         else if dayFromYear (y + 1) \<le> t then y + 1
         else y)"

definition dayWithinYear :: "int \<Rightarrow> int" where
  "dayWithinYear t = t - dayFromYear (yearFromDay t)"

text \<open>Day within the year on which month \<open>mn\<close> (0 = January) begins.\<close>

definition monthStart :: "bool \<Rightarrow> int \<Rightarrow> int" where
  "monthStart leap mn =
     (let l = (if leap then 1 else 0)
      in if mn = 0 then 0
         else if mn = 1 then 31
         else if mn = 2 then 59 + l
         else if mn = 3 then 90 + l
         else if mn = 4 then 120 + l
         else if mn = 5 then 151 + l
         else if mn = 6 then 181 + l
         else if mn = 7 then 212 + l
         else if mn = 8 then 243 + l
         else if mn = 9 then 273 + l
         else if mn = 10 then 304 + l
         else 334 + l)"

definition monthFromDay :: "int \<Rightarrow> int" where
  "monthFromDay t =
     (let d = dayWithinYear t;
          l = (if isLeapYear (yearFromDay t) then 1 else 0)
      in if d < 31 then 0
         else if d < 59 + l then 1
         else if d < 90 + l then 2
         else if d < 120 + l then 3
         else if d < 151 + l then 4
         else if d < 181 + l then 5
         else if d < 212 + l then 6
         else if d < 243 + l then 7
         else if d < 273 + l then 8
         else if d < 304 + l then 9
         else if d < 334 + l then 10
         else 11)"

definition dateFromDay :: "int \<Rightarrow> int" where
  "dateFromDay t =
     dayWithinYear t - monthStart (isLeapYear (yearFromDay t)) (monthFromDay t) + 1"

definition weekDay :: "int \<Rightarrow> int" where
  "weekDay t = (t + 4) mod 7"

definition makeDay :: "int \<Rightarrow> int \<Rightarrow> int \<Rightarrow> int" where
  "makeDay year month dt =
     (let ym = year + month div 12;
          mn = month mod 12
      in dayFromYear ym + monthStart (isLeapYear ym) mn + dt - 1)"

text \<open>
  \<open>new Date(year, month, date)\<close>: local midnight of the given day. Years 0 to 99 are
  read as 1900 to 1999, as the constructor does.
\<close>

definition newDate :: "int \<Rightarrow> int \<Rightarrow> int \<Rightarrow> Date" where
  "newDate year month dt =
     \<lparr>localDay = makeDay (if 0 \<le> year \<and> year \<le> 99 then 1900 + year else year) month dt,
      msInDay = 0\<rparr>"

definition getFullYear :: "Date \<Rightarrow> int" where
  "getFullYear d = yearFromDay (localDay d)"

definition getMonth :: "Date \<Rightarrow> int" where
  "getMonth d = monthFromDay (localDay d)"

definition getDate :: "Date \<Rightarrow> int" where
  "getDate d = dateFromDay (localDay d)"

definition getDay :: "Date \<Rightarrow> int" where
  "getDay d = weekDay (localDay d)"

text \<open>\<open>d.setDate(n)\<close>: the day \<open>n\<close> of the month of \<open>d\<close>, the time of day kept.\<close>

definition setDate :: "Date \<Rightarrow> int \<Rightarrow> Date" where
  "setDate d n = d\<lparr>localDay := makeDay (getFullYear d) (getMonth d) n\<rparr>"

subsection \<open>Formatting\<close>

definition digitChar :: "nat \<Rightarrow> char" where
  "digitChar n = ''0123456789'' ! (n mod 10)"

function natToString :: "nat \<Rightarrow> string" where
  "natToString n =
     (if n < 10 then [digitChar n] else natToString (n div 10) @ [digitChar n])"
  by pat_completeness auto
termination
  by (relation "measure id") auto

declare natToString.simps [simp del]

text \<open>\<open>s.padStart(n, '0')\<close>\<close>

definition padStart :: "nat \<Rightarrow> string \<Rightarrow> string" where
  "padStart n s = replicate (n - length s) CHR ''0'' @ s"

text \<open>\<open>addLeadingZeros\<close> of date-fns: sign, then the absolute value padded.\<close>

definition addLeadingZeros :: "int \<Rightarrow> nat \<Rightarrow> string" where
  "addLeadingZeros number targetLength =
     (if number < 0 then ''-'' else '''') @ padStart targetLength (natToString (nat \<bar>number\<bar>))"

text \<open>
  \<open>format(d, 'yyyy-MM-dd')\<close> of date-fns. The token \<open>yyyy\<close> prints the year of the era:
  a year \<open>y \<le> 0\<close> is printed as \<open>1 - y\<close>.
\<close>

definition formatYMD :: "Date \<Rightarrow> string" where
  "formatYMD d =
     (let signedYear = getFullYear d;
          year = (if signedYear > 0 then signedYear else 1 - signedYear)
      in addLeadingZeros year 4 @ ''-'' @ addLeadingZeros (getMonth d + 1) 2
           @ ''-'' @ addLeadingZeros (getDate d) 2)"

subsection \<open>Parsing\<close>

definition digitVal :: "char \<Rightarrow> nat option" where
  "digitVal c =
     map_of [(CHR ''0'', 0), (CHR ''1'', 1), (CHR ''2'', 2), (CHR ''3'', 3), (CHR ''4'', 4),
             (CHR ''5'', 5), (CHR ''6'', 6), (CHR ''7'', 7), (CHR ''8'', 8), (CHR ''9'', 9)] c"

fun parseDigits :: "nat \<Rightarrow> string \<Rightarrow> nat option" where
  "parseDigits acc [] = Some acc"
| "parseDigits acc (c # cs) =
     (case digitVal c of None \<Rightarrow> None | Some v \<Rightarrow> parseDigits (10 * acc + v) cs)"

definition daysInMonth :: "int \<Rightarrow> int \<Rightarrow> int" where
  "daysInMonth y mn =
     (if mn = 1 then (if isLeapYear y then 29 else 28)
      else if mn = 3 \<or> mn = 5 \<or> mn = 8 \<or> mn = 10 then 30
      else 31)"

text \<open>
  \<open>new Date(s)\<close> for the strings the component builds: a key \<open>YYYY-MM-DD\<close> followed by
  \<open>T00:00:00\<close>, which is read as local midnight of that day. \<open>None\<close> is the invalid
  date. A string that is not of this form, or names no day of the calendar, is taken as
  invalid.
\<close>

definition newDateOfString :: "string \<Rightarrow> Date option" where
  "newDateOfString s =
     (if length s = 19 \<and> s ! 4 = CHR ''-'' \<and> s ! 7 = CHR ''-'' \<and> drop 10 s = ''T00:00:00'' then
        (case (parseDigits 0 (take 4 s), parseDigits 0 (take 2 (drop 5 s)),
               parseDigits 0 (take 2 (drop 8 s))) of
           (Some y, Some mo, Some d) \<Rightarrow>
             if 1 \<le> mo \<and> mo \<le> 12 \<and> 1 \<le> d \<and> int d \<le> daysInMonth (int y) (int mo - 1)
             then Some \<lparr>localDay = makeDay (int y) (int mo - 1) (int d), msInDay = 0\<rparr>
             else None
         | _ \<Rightarrow> None)
      else None)"

subsection \<open>Differences in days\<close>

text \<open>
  \<open>differenceInDays\<close> of date-fns and its helpers. \<open>compareLocalAsc\<close> compares the local
  fields of two dates from the year down to the millisecond.
\<close>

definition compareLocalAsc :: "Date \<Rightarrow> Date \<Rightarrow> int" where
  "compareLocalAsc a b =
     (if localDay a < localDay b then - 1
      else if localDay a > localDay b then 1
      else if msInDay a < msInDay b then - 1
      else if msInDay a > msInDay b then 1
      else 0)"

definition differenceInCalendarDays :: "Date \<Rightarrow> Date \<Rightarrow> int" where
  "differenceInCalendarDays later earlier = localDay later - localDay earlier"

definition differenceInDays :: "Date \<Rightarrow> Date \<Rightarrow> int" where
  "differenceInDays later earlier =
     (let sign = compareLocalAsc later earlier;
          difference = \<bar>differenceInCalendarDays later earlier\<bar>;
          later' = setDate later (getDate later - sign * difference);
          isLastDayNotFull = (if compareLocalAsc later' earlier = - sign then 1 else 0)
      in sign * (difference - isLastDayNotFull))"

section \<open>Data model\<close>

record CustomHoliday =
  ch_id :: string
  ch_name :: string
  ch_start :: string
  ch_end :: string

record BaseDayData =
  date :: Date
  dateStr :: string
  isCurrentMonth :: bool
  lunarDay :: string
  festival :: string
  isBuiltInHoliday :: bool
  isBuiltInWork :: bool
  builtInHolidayName :: string

record DayData = BaseDayData +
  isHoliday :: bool
  isWork :: bool
  holidayName :: string
  isMarked :: bool

section \<open>The lunar and holiday library\<close>

text \<open>
  \<open>HolidayUtil\<close>, \<open>Solar\<close> and \<open>Lunar\<close> come from the library \<open>lunar-javascript\<close>. They are
  tables the component only reads, so they are parameters of the model: functions of the
  year, the month (1 to 12) and the day. A holiday object answers \<open>isWork()\<close> and
  \<open>getName()\<close>; \<open>getHoliday\<close> gives \<open>null\<close> for a day without an entry.
\<close>

record Holiday =
  h_isWork :: bool
  h_getName :: string

record Provider =
  getHoliday :: "int \<Rightarrow> int \<Rightarrow> int \<Rightarrow> Holiday option"
  lunarFestivals :: "int \<Rightarrow> int \<Rightarrow> int \<Rightarrow> string list"
  solarFestivals :: "int \<Rightarrow> int \<Rightarrow> int \<Rightarrow> string list"
  jieQi :: "int \<Rightarrow> int \<Rightarrow> int \<Rightarrow> string"
  dayInChinese :: "int \<Rightarrow> int \<Rightarrow> int \<Rightarrow> string"
  monthInChinese :: "int \<Rightarrow> int \<Rightarrow> int \<Rightarrow> string"

section \<open>Base facts of a day\<close>

text \<open>
  The two Chinese literals of \<open>getBaseDayData\<close>, as their UTF-8 bytes: the label of the
  first day of a lunar month, and the suffix "month". They are only compared for
  equality and appended.
\<close>

definition chuYi :: string where
  "chuYi = [CHR 0xE5, CHR 0x88, CHR 0x9D, CHR 0xE4, CHR 0xB8, CHR 0x80]"

definition yue :: string where
  "yue = [CHR 0xE6, CHR 0x9C, CHR 0x88]"

type_synonym baseDayCache = "string \<rightharpoonup> BaseDayData"

definition cacheKey :: "string \<Rightarrow> bool \<Rightarrow> string" where
  "cacheKey ds icm = ds @ ''-'' @ (if icm then ''true'' else ''false'')"

text \<open>The object \<open>data\<close> that \<open>getBaseDayData\<close> builds when the key is not cached.\<close>

definition baseDayData :: "Provider \<Rightarrow> Date \<Rightarrow> bool \<Rightarrow> BaseDayData" where
  "baseDayData P d icm =
     (let y = getFullYear d; m = getMonth d + 1; dd = getDate d;
          holiday = getHoliday P y m dd;
          fest =
            (if length (lunarFestivals P y m dd) > 0 then lunarFestivals P y m dd ! 0
             else if length (solarFestivals P y m dd) > 0 then solarFestivals P y m dd ! 0
             else if jieQi P y m dd \<noteq> [] then jieQi P y m dd
             else [])
      in \<lparr>date = d,
          dateStr = formatYMD d,
          isCurrentMonth = icm,
          lunarDay =
            (if dayInChinese P y m dd = chuYi then monthInChinese P y m dd @ yue
             else dayInChinese P y m dd),
          festival = fest,
          isBuiltInHoliday = (case holiday of Some h \<Rightarrow> \<not> h_isWork h | None \<Rightarrow> False),
          isBuiltInWork = (case holiday of Some h \<Rightarrow> h_isWork h | None \<Rightarrow> False),
          builtInHolidayName = (case holiday of Some h \<Rightarrow> h_getName h | None \<Rightarrow> [])\<rparr>)"

text \<open>
  \<open>getBaseDayData\<close> reads and writes the module-level table \<open>baseDayCache\<close>; the table is
  passed in and returned.
\<close>

definition getBaseDayData :: "Provider \<Rightarrow> Date \<Rightarrow> bool \<Rightarrow> baseDayCache \<Rightarrow> BaseDayData \<times> baseDayCache" where
  "getBaseDayData P d icm cache =
     (let key = cacheKey (formatYMD d) icm
      in case cache key of
           Some cached \<Rightarrow> (cached, cache)
         | None \<Rightarrow> (baseDayData P d icm, cache(key \<mapsto> baseDayData P d icm)))"

text \<open>
  The tables the program can reach: it starts empty and only \<open>getBaseDayData\<close> writes it.
\<close>

inductive cacheReachable :: "Provider \<Rightarrow> baseDayCache \<Rightarrow> bool" for P where
  cache_empty: "cacheReachable P Map.empty"
| cache_step: "cacheReachable P c \<Longrightarrow> cacheReachable P (snd (getBaseDayData P d icm c))"

section \<open>Merging custom holidays and marks into a day\<close>

text \<open>
  The loop of \<open>combineDayData\<close> over the custom holidays. The triple holds the variables
  \<open>isHoliday\<close>, \<open>isWork\<close> and \<open>holidayName\<close>; the first holiday whose bounds contain the
  key assigns them and leaves the loop.
\<close>

fun combineLoop :: "string \<Rightarrow> CustomHoliday list \<Rightarrow> bool \<times> bool \<times> string \<Rightarrow> bool \<times> bool \<times> string" where
  "combineLoop ds [] vars = vars"
| "combineLoop ds (ch # rest) vars =
     (if ds \<ge> ch_start ch \<and> ds \<le> ch_end ch then (True, False, ch_name ch)
      else combineLoop ds rest vars)"

definition combineDayData :: "BaseDayData \<Rightarrow> CustomHoliday list \<Rightarrow> string set \<Rightarrow> DayData" where
  "combineDayData base customHolidays markedDates =
     (case combineLoop (dateStr base) customHolidays
             (isBuiltInHoliday base, isBuiltInWork base, builtInHolidayName base) of
        (h, w, n) \<Rightarrow>
          BaseDayData.extend base (DayData.fields h w n (dateStr base \<in> markedDates)))"

text \<open>A custom holiday covers a key when the key lies within its bounds, as strings.\<close>

definition covers :: "string \<Rightarrow> CustomHoliday \<Rightarrow> bool" where
  "covers ds ch = (ds \<ge> ch_start ch \<and> ds \<le> ch_end ch)"

section \<open>The grid of a month\<close>

text \<open>The two shapes of \<open>for\<close> loop in the component, over a state \<open>s\<close>.\<close>

function forDown :: "int \<Rightarrow> (int \<Rightarrow> 's \<Rightarrow> 's) \<Rightarrow> 's \<Rightarrow> 's" where
  "forDown i body s = (if i > 0 then forDown (i - 1) body (body i s) else s)"
  by pat_completeness auto
termination
  by (relation "measure (\<lambda>(i, body, s). nat i)") auto

function forUp :: "int \<Rightarrow> int \<Rightarrow> (int \<Rightarrow> 's \<Rightarrow> 's) \<Rightarrow> 's \<Rightarrow> 's" where
  "forUp i n body s = (if i \<le> n then forUp (i + 1) n body (body i s) else s)"
  by pat_completeness auto
termination
  by (relation "measure (\<lambda>(i, n, body, s). nat (n + 1 - i))") auto

declare forDown.simps [simp del] forUp.simps [simp del]

text \<open>\<open>daysArr.push(combineDayData(getBaseDayData(d, icm), customHolidays, markedDates))\<close>\<close>

definition pushDay :: "Provider \<Rightarrow> CustomHoliday list \<Rightarrow> string set \<Rightarrow> Date \<Rightarrow> bool \<Rightarrow>
    DayData list \<times> baseDayCache \<Rightarrow> DayData list \<times> baseDayCache" where
  "pushDay P customHolidays markedDates d icm s =
     (case s of (daysArr, cache) \<Rightarrow>
        (case getBaseDayData P d icm cache of
           (base, cache') \<Rightarrow>
             (daysArr @ [combineDayData base customHolidays markedDates], cache')))"

definition startOffsetOf :: "int \<Rightarrow> int" where
  "startOffsetOf firstDayOfWeek = (if firstDayOfWeek = 0 then 6 else firstDayOfWeek - 1)"

text \<open>The \<open>days\<close> of \<open>MonthView\<close>.\<close>

definition monthViewDays :: "Provider \<Rightarrow> CustomHoliday list \<Rightarrow> string set \<Rightarrow> Date \<Rightarrow>
    baseDayCache \<Rightarrow> DayData list \<times> baseDayCache" where
  "monthViewDays P customHolidays markedDates month cache =
     (let year = getFullYear month;
          m = getMonth month;
          firstDay = newDate year m 1;
          lastDay = newDate year (m + 1) 0;
          firstDayOfWeek = getDay firstDay;
          startOffset = startOffsetOf firstDayOfWeek;
          s1 = forDown startOffset
                 (\<lambda>i. pushDay P customHolidays markedDates (newDate year m (1 - i)) False)
                 ([], cache);
          s2 = forUp 1 (getDate lastDay)
                 (\<lambda>i. pushDay P customHolidays markedDates (newDate year m i) True) s1;
          remainingDays = 42 - int (length (fst s2))
      in forUp 1 remainingDays
           (\<lambda>i. pushDay P customHolidays markedDates (newDate year (m + 1) i) False) s2)"

section \<open>Holiday blocks in the grid\<close>

text \<open>
  What the callback of \<open>days.map\<close> computes for the cell \<open>idx\<close>, with \<open>idx < length days\<close>.
\<close>

definition prevDay :: "DayData list \<Rightarrow> nat \<Rightarrow> DayData option" where
  "prevDay days idx = (if idx > 0 then Some (days ! (idx - 1)) else None)"

definition nextDay :: "DayData list \<Rightarrow> nat \<Rightarrow> DayData option" where
  "nextDay days idx = (if int idx < int (length days) - 1 then Some (days ! (idx + 1)) else None)"

definition isHolidayStart :: "DayData list \<Rightarrow> nat \<Rightarrow> bool" where
  "isHolidayStart days idx =
     (let day = days ! idx
      in isHoliday day \<and>
         (case prevDay days idx of
            None \<Rightarrow> True
          | Some p \<Rightarrow> \<not> isHoliday p \<or> holidayName p \<noteq> holidayName day))"

definition isHolidayEnd :: "DayData list \<Rightarrow> nat \<Rightarrow> bool" where
  "isHolidayEnd days idx =
     (let day = days ! idx
      in isHoliday day \<and>
         (case nextDay days idx of
            None \<Rightarrow> True
          | Some n \<Rightarrow> \<not> isHoliday n \<or> holidayName n \<noteq> holidayName day))"

definition isRowStart :: "DayData \<Rightarrow> bool" where
  "isRowStart day = (getDay (date day) = 1)"

definition isRowEnd :: "DayData \<Rightarrow> bool" where
  "isRowEnd day = (getDay (date day) = 0)"

definition blockStart :: "DayData list \<Rightarrow> nat \<Rightarrow> bool" where
  "blockStart days idx = (isHolidayStart days idx \<or> isRowStart (days ! idx))"

definition blockEnd :: "DayData list \<Rightarrow> nat \<Rightarrow> bool" where
  "blockEnd days idx = (isHolidayEnd days idx \<or> isRowEnd (days ! idx))"

section \<open>Progress of the holiday in course\<close>

text \<open>A JavaScript number that is an integer or \<open>NaN\<close>.\<close>

datatype number = NaN | Number int

record HolidayProgress =
  hp_name :: string
  hp_current :: number
  hp_remaining :: number

text \<open>The first branch of \<open>holidayProgress\<close>: the custom holiday \<open>ch\<close> was found.\<close>

definition customProgress :: "Date \<Rightarrow> CustomHoliday \<Rightarrow> HolidayProgress" where
  "customProgress currentDate ch =
     (let start = newDateOfString (ch_start ch @ ''T00:00:00'');
          end' = newDateOfString (ch_end ch @ ''T00:00:00'');
          total = (case (end', start) of
                     (Some e, Some s) \<Rightarrow> Number (differenceInDays e s + 1)
                   | _ \<Rightarrow> NaN);
          current = (case start of
                       Some s \<Rightarrow> Number (differenceInDays currentDate s + 1)
                     | None \<Rightarrow> NaN)
      in \<lparr>hp_name = ch_name ch,
          hp_current = current,
          hp_remaining = (case (total, current) of
                            (Number t, Number c) \<Rightarrow> Number (t - c)
                          | _ \<Rightarrow> NaN)\<rparr>)"

text \<open>The test of both \<open>while\<close> loops on the holiday of a neighbouring day.\<close>

definition sameHoliday :: "Provider \<Rightarrow> string \<Rightarrow> Date \<Rightarrow> bool" where
  "sameHoliday P name d =
     (case getHoliday P (getFullYear d) (getMonth d + 1) (getDate d) of
        None \<Rightarrow> False
      | Some ph \<Rightarrow> \<not> h_isWork ph \<and> h_getName ph = name)"

text \<open>
  The two \<open>while (true)\<close> loops. Neither has a bound, so they are partial functions:
  \<open>None\<close> means that the loop does not end.
\<close>

partial_function (option) scanBack :: "Provider \<Rightarrow> string \<Rightarrow> Date \<Rightarrow> Date option" where
  "scanBack P name startD =
     (let prev = setDate startD (getDate startD - 1)
      in if sameHoliday P name prev then scanBack P name prev else Some startD)"

partial_function (option) scanForward :: "Provider \<Rightarrow> string \<Rightarrow> Date \<Rightarrow> Date option" where
  "scanForward P name endD =
     (let next = setDate endD (getDate endD + 1)
      in if sameHoliday P name next then scanForward P name next else Some endD)"

text \<open>
  \<open>holidayProgress\<close>. The outer \<open>None\<close> means that the computation does not return; the
  inner \<open>None\<close> is the result \<open>null\<close>.
\<close>

definition holidayProgress :: "Provider \<Rightarrow> Date \<Rightarrow> CustomHoliday list \<Rightarrow> HolidayProgress option option" where
  "holidayProgress P currentDate customHolidays =
     (let ds = formatYMD currentDate
      in case find (\<lambda>h. ds \<ge> ch_start h \<and> ds \<le> ch_end h) customHolidays of
           Some ch \<Rightarrow> Some (Some (customProgress currentDate ch))
         | None \<Rightarrow>
             (case getHoliday P (getFullYear currentDate) (getMonth currentDate + 1)
                     (getDate currentDate) of
                None \<Rightarrow> Some None
              | Some h \<Rightarrow>
                  if \<not> h_isWork h then
                    (case scanBack P (h_getName h) currentDate of
                       None \<Rightarrow> None
                     | Some startD \<Rightarrow>
                         (case scanForward P (h_getName h) currentDate of
                            None \<Rightarrow> None
                          | Some endD \<Rightarrow>
                              (let total = differenceInDays endD startD + 1;
                                   current = differenceInDays currentDate startD + 1
                               in Some (Some \<lparr>hp_name = h_getName h,
                                               hp_current = Number current,
                                               hp_remaining = Number (total - current)\<rparr>))))
                  else Some None))"

section \<open>Marks and custom holidays of the session\<close>

text \<open>The updater that \<open>toggleMark\<close> hands to \<open>setMarkedDates\<close>, applied to the set.\<close>

definition toggleMark :: "Date \<Rightarrow> string set \<Rightarrow> string set" where
  "toggleMark d prev =
     (let ds = formatYMD d
      in if ds \<in> prev then prev - {ds} else insert ds prev)"

record CalendarState =
  selectedDate :: "Date option"
  holidayNameInput :: string
  holidayEndInput :: string
  customHolidays :: "CustomHoliday list"
  showCustomHolidayForm :: bool

text \<open>
  \<open>handleSaveCustomHoliday\<close>; \<open>now\<close> is the value of \<open>Date.now()\<close>. An empty string is
  falsy, so it counts as a missing input.
\<close>

definition handleSaveCustomHoliday :: "nat \<Rightarrow> CalendarState \<Rightarrow> CalendarState" where
  "handleSaveCustomHoliday now st =
     (case selectedDate st of
        None \<Rightarrow> st
      | Some sd \<Rightarrow>
          if holidayNameInput st = [] \<or> holidayEndInput st = [] then st
          else
            (let startStr = formatYMD sd
             in if holidayEndInput st < startStr then st
                else
                  st\<lparr>customHolidays :=
                       customHolidays st @
                         [\<lparr>ch_id = natToString now, ch_name = holidayNameInput st,
                           ch_start = startStr, ch_end = holidayEndInput st\<rparr>],
                     showCustomHolidayForm := False,
                     holidayNameInput := [],
                     holidayEndInput := []\<rparr>))"

section \<open>Sample data\<close>

text \<open>
  Two holiday tables for the concrete instances below. The first holds the Spring
  Festival of 2026: rest days from 15 to 23 February, a working Saturday on the 14th.
  The second names every day a rest day of one and the same holiday.
\<close>

definition springFestival :: Provider where
  "springFestival =
     \<lparr>getHoliday = (\<lambda>y m d.
        if y = 2026 \<and> m = 2 \<and> 15 \<le> d \<and> d \<le> 23
        then Some \<lparr>h_isWork = False, h_getName = ''Spring Festival''\<rparr>
        else if y = 2026 \<and> m = 2 \<and> d = 14
        then Some \<lparr>h_isWork = True, h_getName = ''Spring Festival''\<rparr>
        else None),
      lunarFestivals = (\<lambda>y m d. []),
      solarFestivals = (\<lambda>y m d. []),
      jieQi = (\<lambda>y m d. []),
      dayInChinese = (\<lambda>y m d. ''D''),
      monthInChinese = (\<lambda>y m d. ''M'')\<rparr>"

definition endlessHoliday :: Provider where
  "endlessHoliday =
     \<lparr>getHoliday = (\<lambda>y m d. Some \<lparr>h_isWork = False, h_getName = ''Rest''\<rparr>),
      lunarFestivals = (\<lambda>y m d. []),
      solarFestivals = (\<lambda>y m d. []),
      jieQi = (\<lambda>y m d. []),
      dayInChinese = (\<lambda>y m d. ''D''),
      monthInChinese = (\<lambda>y m d. ''M'')\<rparr>"

definition sampleBase :: BaseDayData where
  "sampleBase =
     \<lparr>date = \<lparr>localDay = 20506, msInDay = 0\<rparr>, dateStr = ''2026-02-22'',
      isCurrentMonth = True, lunarDay = ''D'', festival = [], isBuiltInHoliday = False,
      isBuiltInWork = True, builtInHolidayName = ''B''\<rparr>"

definition sampleHolidays :: "CustomHoliday list" where
  "sampleHolidays =
     [\<lparr>ch_id = ''1'', ch_name = ''A'', ch_start = ''2026-03-01'', ch_end = ''2026-03-05''\<rparr>,
      \<lparr>ch_id = ''2'', ch_name = ''X'', ch_start = ''2026-02-20'', ch_end = ''2026-02-23''\<rparr>,
      \<lparr>ch_id = ''3'', ch_name = ''Y'', ch_start = ''2026-02-22'', ch_end = ''2026-02-22''\<rparr>]"

text \<open>Three cells in a row, a Tuesday to a Thursday, the middle one a holiday.\<close>

definition sampleCell :: "int \<Rightarrow> bool \<Rightarrow> string \<Rightarrow> DayData" where
  "sampleCell t h n =
     \<lparr>date = \<lparr>localDay = t, msInDay = 0\<rparr>, dateStr = [], isCurrentMonth = True,
      lunarDay = [], festival = [], isBuiltInHoliday = False, isBuiltInWork = False,
      builtInHolidayName = [], isHoliday = h, isWork = False, holidayName = n,
      isMarked = False\<rparr>"

definition sampleRow :: "DayData list" where
  "sampleRow = [sampleCell 20501 False [], sampleCell 20502 True ''X'', sampleCell 20503 False []]"

section \<open>Notions used in the statements\<close>

definition effectiveYear :: "int \<Rightarrow> int" where
  "effectiveYear year = (if 0 \<le> year \<and> year \<le> 99 then 1900 + year else year)"

definition cellKey :: "DayData \<Rightarrow> string \<times> bool" where
  "cellKey r = (dateStr r, isCurrentMonth r)"

text \<open>The keys and the flags of the cells of a month, in the order of the grid.\<close>

definition gridKeys :: "Date \<Rightarrow> (string \<times> bool) list" where
  "gridKeys month =
     (let year = getFullYear month;
          m = getMonth month;
          startOffset = startOffsetOf (getDay (newDate year m 1));
          n = getDate (newDate year (m + 1) 0);
          leading = map (\<lambda>i. (formatYMD (newDate year m (1 - i)), False)) (rev [1..startOffset]);
          current = map (\<lambda>i. (formatYMD (newDate year m i), True)) [1..n]
      in leading @ current @
         map (\<lambda>i. (formatYMD (newDate year (m + 1) i), False))
           [1..42 - int (length (leading @ current))])"

definition marchYear50 :: Date where
  "marchYear50 = \<lparr>localDay = - 701206, msInDay = 0\<rparr>"

text \<open>
  The day with number \<open>t\<close> is a rest day of the holiday \<open>name\<close>: the test of the two
  loops, which reads the year, the month and the day of a date only.
\<close>

definition restDayOf :: "Provider \<Rightarrow> string \<Rightarrow> int \<Rightarrow> bool" where
  "restDayOf P name t = sameHoliday P name \<lparr>localDay = t, msInDay = 0\<rparr>"

text \<open>The reference date of the component, 22 February 2026 at 23:16:49, and a later day.\<close>

definition sampleNow :: Date where
  "sampleNow = \<lparr>localDay = 20506, msInDay = 83809000\<rparr>"

definition sampleLater :: Date where
  "sampleLater = \<lparr>localDay = 20522, msInDay = 0\<rparr>"

text \<open>
  A session in which 1 January 10000 is selected and the end date 9999-12-31, the day
  before it, was typed.
\<close>

definition sampleStateY10K :: CalendarState where
  "sampleStateY10K =
     \<lparr>selectedDate = Some \<lparr>localDay = 2932897, msInDay = 0\<rparr>, holidayNameInput = ''X'',
      holidayEndInput = ''9999-12-31'', customHolidays = [],
      showCustomHolidayForm = True\<rparr>"

section \<open>Properties of the calendar functions\<close>

lemma div_bounds: "0 < c \<Longrightarrow> c * (x div c) \<le> x \<and> x < c * (x div c) + (c::int)"
  using pos_mod_bound [of c x] pos_mod_sign [of c x] mult_div_mod_eq [of c x] by linarith

lemma div_step:
  assumes "0 < (c::int)"
  shows "(x + 1) div c = x div c + (if (x + 1) mod c = 0 then 1 else 0)"
proof -
  define q r where "q = x div c" and "r = x mod c"
  have x: "x = c * q + r" by (simp add: q_def r_def)
  have r: "0 \<le> r" "r < c" using assms by (simp_all add: r_def)
  show ?thesis
  proof (cases "r + 1 = c")
    case True
    have "c * (q + 1) = c * q + c" by (simp add: algebra_simps)
    with True x have eq: "x + 1 = c * (q + 1) + 0" by linarith
    have "(x + 1) div c = q + 1"
      by (rule int_div_pos_eq [OF eq]) (use assms in simp_all)
    moreover have "(x + 1) mod c = 0"
      by (rule int_mod_pos_eq [OF eq]) (use assms in simp_all)
    ultimately show ?thesis by (simp add: q_def)
  next
    case False
    then have lt: "r + 1 < c" using r by linarith
    have eq: "x + 1 = c * q + (r + 1)" using x by simp
    have "(x + 1) div c = q"
      by (rule int_div_pos_eq [OF eq]) (use r lt in simp_all)
    moreover have "(x + 1) mod c = r + 1"
      by (rule int_mod_pos_eq [OF eq]) (use r lt in simp_all)
    ultimately show ?thesis using r by (simp add: q_def)
  qed
qed

lemma mod_shift: "c dvd k \<Longrightarrow> (y - k) mod c = (y::int) mod c"
  by (metis dvd_imp_mod_0 diff_zero mod_diff_right_eq)

lemma mod_400_100: "(y::int) mod 400 = 0 \<Longrightarrow> y mod 100 = 0"
  using mod_mod_cancel [of 100 400 y] by simp

lemma mod_100_4: "(y::int) mod 100 = 0 \<Longrightarrow> y mod 4 = 0"
  using mod_mod_cancel [of 4 100 y] by simp

lemma dayFromYear_step: "dayFromYear (y + 1) = dayFromYear y + daysInYear y"
proof -
  define A B C where "A = (y - 1969) div 4" and "B = (y - 1901) div 100" and "C = (y - 1601) div 400"
  define a b c :: int where "a = (if y mod 4 = 0 then 1 else 0)"
    and "b = (if y mod 100 = 0 then 1 else 0)" and "c = (if y mod 400 = 0 then 1 else 0)"
  have "(y - 1969 + 1) div 4 = A + a"
    using div_step [of 4 "y - 1969"] mod_shift [of 4 1968 y] by (simp add: A_def a_def)
  then have a: "(y + 1 - 1969) div 4 = A + a" by (simp add: algebra_simps)
  have "(y - 1901 + 1) div 100 = B + b"
    using div_step [of 100 "y - 1901"] mod_shift [of 100 1900 y] by (simp add: B_def b_def)
  then have b: "(y + 1 - 1901) div 100 = B + b" by (simp add: algebra_simps)
  have "(y - 1601 + 1) div 400 = C + c"
    using div_step [of 400 "y - 1601"] mod_shift [of 400 1600 y] by (simp add: C_def c_def)
  then have c: "(y + 1 - 1601) div 400 = C + c" by (simp add: algebra_simps)
  have l: "daysInYear y = 365 + a - b + c"
    using mod_400_100 [of y] mod_100_4 [of y]
    by (cases "y mod 400 = 0"; cases "y mod 100 = 0"; cases "y mod 4 = 0")
       (simp_all add: daysInYear_def isLeapYear_def a_def b_def c_def)
  have "dayFromYear (y + 1) = 365 * (y + 1 - 1970) + (A + a) - (B + b) + (C + c)"
    unfolding dayFromYear_def a b c ..
  moreover have "dayFromYear y = 365 * (y - 1970) + A - B + C"
    by (simp add: dayFromYear_def A_def B_def C_def)
  ultimately show ?thesis using l by simp
qed

lemma dayFromYear_lower: "146097 * y \<le> 400 * dayFromYear y + 287811700"
proof -
  define q where "q = (y - 1969) div 4"
  define r where "r = (y - 1901) div 100"
  define s where "s = (y - 1601) div 400"
  have "y - 1969 < 4 * q + 4" "100 * r \<le> y - 1901" "y - 1601 < 400 * s + 400"
    using div_bounds [of 4 "y - 1969"] div_bounds [of 100 "y - 1901"] div_bounds [of 400 "y - 1601"]
    by (simp_all add: q_def r_def s_def)
  moreover have "dayFromYear y = 365 * y - 719050 + q - r + s"
    by (simp add: dayFromYear_def q_def r_def s_def)
  ultimately show ?thesis by linarith
qed

lemma dayFromYear_upper: "400 * dayFromYear y \<le> 146097 * y - 287810490"
proof -
  define q where "q = (y - 1969) div 4"
  define r where "r = (y - 1901) div 100"
  define s where "s = (y - 1601) div 400"
  have "4 * q \<le> y - 1969" "y - 1901 < 100 * r + 100" "400 * s \<le> y - 1601"
    using div_bounds [of 4 "y - 1969"] div_bounds [of 100 "y - 1901"] div_bounds [of 400 "y - 1601"]
    by (simp_all add: q_def r_def s_def)
  moreover have "dayFromYear y = 365 * y - 719050 + q - r + s"
    by (simp add: dayFromYear_def q_def r_def s_def)
  ultimately show ?thesis by linarith
qed

lemma daysInYear_cases: "daysInYear y = 365 \<or> daysInYear y = 366"
  by (simp add: daysInYear_def)

lemma year_bounds: "dayFromYear (yearFromDay t) \<le> t \<and> t < dayFromYear (yearFromDay t + 1)"
proof -
  define q where "q = (400 * t) div 146097"
  define y where "y = 1970 + q"
  have e: "146097 * q \<le> 400 * t" "400 * t < 146097 * q + 146097"
    using div_bounds [of 146097 "400 * t"] by (simp_all add: q_def)
  have s1: "dayFromYear (y + 1) = dayFromYear y + daysInYear y" by (rule dayFromYear_step)
  have s2: "dayFromYear (y + 2) = dayFromYear (y + 1) + daysInYear (y + 1)"
    using dayFromYear_step [of "y + 1"] by (simp add: algebra_simps)
  have s0: "dayFromYear y = dayFromYear (y - 1) + daysInYear (y - 1)"
    using dayFromYear_step [of "y - 1"] by simp
  have u: "400 * dayFromYear (y - 1) \<le> 146097 * q - 145497"
    using dayFromYear_upper [of "y - 1"] by (simp add: y_def algebra_simps)
  have l: "146097 * q + 291584 \<le> 400 * dayFromYear (y + 2)"
    using dayFromYear_lower [of "y + 2"] by (simp add: y_def algebra_simps)
  have lo: "dayFromYear (y - 1) \<le> t" using u e by linarith
  have hi: "t < dayFromYear (y + 2)" using l e by linarith
  have yd: "yearFromDay t =
      (if t < dayFromYear y then y - 1 else if dayFromYear (y + 1) \<le> t then y + 1 else y)"
    by (simp add: yearFromDay_def Let_def y_def q_def)
  show ?thesis
  proof (cases "t < dayFromYear y")
    case True
    with lo yd show ?thesis by simp
  next
    case False
    show ?thesis
    proof (cases "dayFromYear (y + 1) \<le> t")
      case True
      with False hi yd show ?thesis by (simp add: algebra_simps)
    next
      case False
      with \<open>\<not> t < dayFromYear y\<close> yd show ?thesis by simp
    qed
  qed
qed

lemma dayFromYear_mono: "y \<le> y' \<Longrightarrow> dayFromYear y \<le> dayFromYear y'"
proof (induction "nat (y' - y)" arbitrary: y')
  case 0
  then show ?case by simp
next
  case (Suc n)
  then have "n = nat ((y' - 1) - y)" "y \<le> y' - 1" by linarith+
  from Suc(1) [OF this] have "dayFromYear y \<le> dayFromYear (y' - 1)" .
  moreover have "dayFromYear y' = dayFromYear (y' - 1) + daysInYear (y' - 1)"
    using dayFromYear_step [of "y' - 1"] by simp
  ultimately show ?case using daysInYear_cases [of "y' - 1"] by linarith
qed

lemma yearFromDay_unique:
  assumes "dayFromYear y \<le> t" "t < dayFromYear (y + 1)"
  shows "yearFromDay t = y"
proof (rule ccontr)
  assume ne: "yearFromDay t \<noteq> y"
  let ?z = "yearFromDay t"
  from year_bounds [of t] have b: "dayFromYear ?z \<le> t" "t < dayFromYear (?z + 1)" by simp_all
  from ne consider "?z + 1 \<le> y" | "y + 1 \<le> ?z" by linarith
  then show False
  proof cases
    case 1
    from dayFromYear_mono [OF 1] b assms show False by linarith
  next
    case 2
    from dayFromYear_mono [OF 2] b assms show False by linarith
  qed
qed

lemma dayWithinYear_range: "0 \<le> dayWithinYear t \<and> dayWithinYear t < daysInYear (yearFromDay t)"
  using year_bounds [of t] dayFromYear_step [of "yearFromDay t"] by (simp add: dayWithinYear_def)

lemma monthFromDay_range: "0 \<le> monthFromDay t \<and> monthFromDay t \<le> 11"
  by (simp add: monthFromDay_def Let_def)

lemma civil_forms:
  fixes t :: int
  defines "d \<equiv> dayWithinYear t"
  defines "l \<equiv> (if isLeapYear (yearFromDay t) then 1 else 0 :: int)"
  shows "0 \<le> d" "d < 365 + l" "l = 0 \<or> l = 1"
    and "monthFromDay t =
      (if d < 31 then 0 else if d < 59 + l then 1 else if d < 90 + l then 2
       else if d < 120 + l then 3 else if d < 151 + l then 4 else if d < 181 + l then 5
       else if d < 212 + l then 6 else if d < 243 + l then 7 else if d < 273 + l then 8
       else if d < 304 + l then 9 else if d < 334 + l then 10 else 11)"
    and "dateFromDay t = d - monthStart (isLeapYear (yearFromDay t)) (monthFromDay t) + 1"
proof -
  show "0 \<le> d" using dayWithinYear_range [of t] by (simp add: d_def)
  show "d < 365 + l"
    using dayWithinYear_range [of t] by (auto simp: d_def l_def daysInYear_def split: if_splits)
  show "l = 0 \<or> l = 1" by (simp add: l_def)
  show "monthFromDay t =
      (if d < 31 then 0 else if d < 59 + l then 1 else if d < 90 + l then 2
       else if d < 120 + l then 3 else if d < 151 + l then 4 else if d < 181 + l then 5
       else if d < 212 + l then 6 else if d < 243 + l then 7 else if d < 273 + l then 8
       else if d < 304 + l then 9 else if d < 334 + l then 10 else 11)"
    by (simp add: monthFromDay_def Let_def d_def l_def)
  show "dateFromDay t = d - monthStart (isLeapYear (yearFromDay t)) (monthFromDay t) + 1"
    by (simp add: dateFromDay_def d_def)
qed

lemma monthStart_form:
  "monthStart L k =
      (if k = 0 then 0 else if k = 1 then 31 else if k = 2 then 59 + (if L then 1 else 0)
       else if k = 3 then 90 + (if L then 1 else 0) else if k = 4 then 120 + (if L then 1 else 0)
       else if k = 5 then 151 + (if L then 1 else 0) else if k = 6 then 181 + (if L then 1 else 0)
       else if k = 7 then 212 + (if L then 1 else 0) else if k = 8 then 243 + (if L then 1 else 0)
       else if k = 9 then 273 + (if L then 1 else 0) else if k = 10 then 304 + (if L then 1 else 0)
       else 334 + (if L then 1 else 0))"
  by (simp add: monthStart_def Let_def)

lemma daysInMonth_range: "28 \<le> daysInMonth y m \<and> daysInMonth y m \<le> 31"
  by (simp add: daysInMonth_def)

lemma dayWithinYear_month:
  "monthStart (isLeapYear (yearFromDay t)) (monthFromDay t) \<le> dayWithinYear t \<and>
   dayWithinYear t < monthStart (isLeapYear (yearFromDay t)) (monthFromDay t)
                      + daysInMonth (yearFromDay t) (monthFromDay t)"
proof -
  define d where "d = dayWithinYear t"
  define l :: int where "l = (if isLeapYear (yearFromDay t) then 1 else 0)"
  have r: "0 \<le> d" "d < 365 + l" "0 \<le> l" "l \<le> 1"
    using civil_forms(1,2) [of t] by (simp_all add: d_def l_def)
  have m: "monthFromDay t =
      (if d < 31 then 0 else if d < 59 + l then 1 else if d < 90 + l then 2
       else if d < 120 + l then 3 else if d < 151 + l then 4 else if d < 181 + l then 5
       else if d < 212 + l then 6 else if d < 243 + l then 7 else if d < 273 + l then 8
       else if d < 304 + l then 9 else if d < 334 + l then 10 else 11)"
    using civil_forms(4) [of t] by (simp add: d_def l_def)
  have s: "monthStart (isLeapYear (yearFromDay t)) k =
      (if k = 0 then 0 else if k = 1 then 31 else if k = 2 then 59 + l
       else if k = 3 then 90 + l else if k = 4 then 120 + l else if k = 5 then 151 + l
       else if k = 6 then 181 + l else if k = 7 then 212 + l else if k = 8 then 243 + l
       else if k = 9 then 273 + l else if k = 10 then 304 + l else 334 + l)" for k
    by (simp add: monthStart_def Let_def l_def)
  have dm: "daysInMonth (yearFromDay t) k =
      (if k = 1 then 28 + l else if k = 3 \<or> k = 5 \<or> k = 8 \<or> k = 10 then 30 else 31)" for k
    by (simp add: daysInMonth_def l_def)
  have "d < 31 \<or> (31 \<le> d \<and> d < 59 + l) \<or> (59 + l \<le> d \<and> d < 90 + l)
      \<or> (90 + l \<le> d \<and> d < 120 + l) \<or> (120 + l \<le> d \<and> d < 151 + l)
      \<or> (151 + l \<le> d \<and> d < 181 + l) \<or> (181 + l \<le> d \<and> d < 212 + l)
      \<or> (212 + l \<le> d \<and> d < 243 + l) \<or> (243 + l \<le> d \<and> d < 273 + l)
      \<or> (273 + l \<le> d \<and> d < 304 + l) \<or> (304 + l \<le> d \<and> d < 334 + l) \<or> 334 + l \<le> d"
    by linarith
  then have "monthStart (isLeapYear (yearFromDay t)) (monthFromDay t) \<le> d \<and>
      d < monthStart (isLeapYear (yearFromDay t)) (monthFromDay t)
            + daysInMonth (yearFromDay t) (monthFromDay t)"
  proof (elim disjE conjE)
    assume "d < 31" then show ?thesis using r by (simp add: m s dm)
  next
    assume "31 \<le> d" "d < 59 + l" then show ?thesis using r by (simp add: m s dm)
  next
    assume "59 + l \<le> d" "d < 90 + l" then show ?thesis using r by (simp add: m s dm)
  next
    assume "90 + l \<le> d" "d < 120 + l" then show ?thesis using r by (simp add: m s dm)
  next
    assume "120 + l \<le> d" "d < 151 + l" then show ?thesis using r by (simp add: m s dm)
  next
    assume "151 + l \<le> d" "d < 181 + l" then show ?thesis using r by (simp add: m s dm)
  next
    assume "181 + l \<le> d" "d < 212 + l" then show ?thesis using r by (simp add: m s dm)
  next
    assume "212 + l \<le> d" "d < 243 + l" then show ?thesis using r by (simp add: m s dm)
  next
    assume "243 + l \<le> d" "d < 273 + l" then show ?thesis using r by (simp add: m s dm)
  next
    assume "273 + l \<le> d" "d < 304 + l" then show ?thesis using r by (simp add: m s dm)
  next
    assume "304 + l \<le> d" "d < 334 + l" then show ?thesis using r by (simp add: m s dm)
  next
    assume "334 + l \<le> d" then show ?thesis using r by (simp add: m s dm)
  qed
  then show ?thesis by (simp add: d_def)
qed

lemma dateFromDay_le:
  "1 \<le> dateFromDay t \<and> dateFromDay t \<le> daysInMonth (yearFromDay t) (monthFromDay t)"
  using dayWithinYear_month [of t] by (simp add: dateFromDay_def)

lemma dateFromDay_range: "1 \<le> dateFromDay t \<and> dateFromDay t \<le> 31"
  using dateFromDay_le [of t] daysInMonth_range [of "yearFromDay t" "monthFromDay t"] by simp

lemma makeDay_civil: "makeDay (yearFromDay t) (monthFromDay t) (dateFromDay t + k) = t + k"
proof -
  have "monthFromDay t div 12 = 0" "monthFromDay t mod 12 = monthFromDay t"
    using monthFromDay_range [of t] by simp_all
  then show ?thesis
    by (simp add: makeDay_def dateFromDay_def dayWithinYear_def)
qed

lemma month_cases:
  "0 \<le> m \<Longrightarrow> m \<le> 11 \<Longrightarrow>
   m = 0 \<or> m = 1 \<or> m = 2 \<or> m = 3 \<or> m = 4 \<or> m = 5 \<or> m = 6 \<or> m = 7 \<or> m = 8 \<or> m = 9
   \<or> m = 10 \<or> m = (11::int)"
  by arith

lemma makeDay_in_year:
  assumes "0 \<le> m" "m \<le> 11"
  shows "makeDay y m dd = dayFromYear y + monthStart (isLeapYear y) m + dd - 1"
  using assms by (simp add: makeDay_def)

lemma monthStart_next:
  assumes "0 \<le> m" "m \<le> 10"
  shows "monthStart (isLeapYear y) (m + 1) = monthStart (isLeapYear y) m + daysInMonth y m"
proof -
  from assms have "m = 0 \<or> m = 1 \<or> m = 2 \<or> m = 3 \<or> m = 4 \<or> m = 5 \<or> m = 6 \<or> m = 7 \<or> m = 8
      \<or> m = 9 \<or> m = 10" by arith
  then show ?thesis
    by (elim disjE) (simp_all add: monthStart_def daysInMonth_def)
qed

lemma monthStart_december:
  "monthStart (isLeapYear y) 11 + daysInMonth y 11 = daysInYear y"
  by (simp add: monthStart_def daysInMonth_def daysInYear_def)

lemma monthStart_0: "monthStart L 0 = 0"
  by (simp add: monthStart_def)

text \<open>The first day of the next month.\<close>

lemma makeDay_next_month:
  assumes "0 \<le> m" "m \<le> 11"
  shows "makeDay y (m + 1) 1 = makeDay y m 1 + daysInMonth y m"
proof (cases "m = 11")
  case True
  have "makeDay y 12 1 = dayFromYear (y + 1)"
    by (simp add: makeDay_def monthStart_0)
  moreover have "makeDay y 11 1 = dayFromYear y + monthStart (isLeapYear y) 11"
    by (simp add: makeDay_def)
  ultimately show ?thesis
    using True dayFromYear_step [of y] monthStart_december [of y] by simp
next
  case False
  with assms have m: "0 \<le> m" "m \<le> 10" "0 \<le> m + 1" "m + 1 \<le> 11" by simp_all
  show ?thesis
    using makeDay_in_year [OF m(3,4), of y 1] makeDay_in_year [OF assms, of y 1]
      monthStart_next [OF m(1,2), of y]
    by simp
qed

lemma makeDay_date: "makeDay y m dd = makeDay y m 1 + dd - 1"
  by (simp add: makeDay_def Let_def)

lemma monthStart_range:
  assumes "0 \<le> m" "m \<le> 11" "1 \<le> dd" "dd \<le> daysInMonth y m"
  shows "0 \<le> monthStart (isLeapYear y) m + dd - 1"
    and "monthStart (isLeapYear y) m + dd - 1 < daysInYear y"
  using month_cases [OF assms(1,2)] assms(3,4)
  by (elim disjE; simp add: monthStart_def daysInMonth_def daysInYear_def split: if_splits)+

lemma civil_of_makeDay:
  assumes "0 \<le> m" "m \<le> 11" "1 \<le> dd" "dd \<le> daysInMonth y m"
  shows "yearFromDay (makeDay y m dd) = y"
    and "monthFromDay (makeDay y m dd) = m"
    and "dateFromDay (makeDay y m dd) = dd"
proof -
  let ?t = "makeDay y m dd"
  have t: "?t = dayFromYear y + (monthStart (isLeapYear y) m + dd - 1)"
    using makeDay_in_year [OF assms(1,2), of y dd] by simp
  have r: "0 \<le> monthStart (isLeapYear y) m + dd - 1"
      "monthStart (isLeapYear y) m + dd - 1 < daysInYear y"
    using monthStart_range [OF assms] by simp_all
  show y: "yearFromDay ?t = y"
    by (rule yearFromDay_unique) (use t r dayFromYear_step [of y] in simp_all)
  have d: "dayWithinYear ?t = monthStart (isLeapYear y) m + dd - 1"
    using t y by (simp add: dayWithinYear_def)
  show mo: "monthFromDay ?t = m"
    unfolding monthFromDay_def d y Let_def
    using month_cases [OF assms(1,2)] assms(3,4)
    by (elim disjE; simp add: monthStart_def daysInMonth_def split: if_splits)
  show "dateFromDay ?t = dd"
    by (simp add: dateFromDay_def d y mo)
qed

lemma newDate_day:
  "newDate year m k = \<lparr>localDay = makeDay (effectiveYear year) m 1 + k - 1, msInDay = 0\<rparr>"
  using makeDay_date [of "effectiveYear year" m k] by (simp add: newDate_def effectiveYear_def)

lemma newDate_next_month_day:
  assumes "0 \<le> m" "m \<le> 11"
  shows "newDate year (m + 1) k =
     \<lparr>localDay = makeDay (effectiveYear year) m 1 + daysInMonth (effectiveYear year) m + k - 1,
      msInDay = 0\<rparr>"
  using makeDay_next_month [OF assms, of "effectiveYear year"] newDate_day [of year "m + 1" k]
  by simp

lemma getDate_last_day:
  assumes "0 \<le> m" "m \<le> 11"
  shows "getDate (newDate year (m + 1) 0) = daysInMonth (effectiveYear year) m"
proof -
  let ?Y = "effectiveYear year"
  have "localDay (newDate year (m + 1) 0) = makeDay ?Y m (daysInMonth ?Y m)"
    using newDate_next_month_day [OF assms, of year 0] makeDay_date [of ?Y m "daysInMonth ?Y m"]
    by simp
  moreover have "dateFromDay (makeDay ?Y m (daysInMonth ?Y m)) = daysInMonth ?Y m"
    using daysInMonth_range [of ?Y m] by (intro civil_of_makeDay(3) assms) simp_all
  ultimately show ?thesis by (simp add: getDate_def)
qed

lemma startOffsetOf_weekDay:
  "startOffsetOf (weekDay t) = (t + 3) mod 7"
  "0 \<le> startOffsetOf (weekDay t)" "startOffsetOf (weekDay t) \<le> 6"
  "weekDay (t - startOffsetOf (weekDay t)) = 1"
  unfolding startOffsetOf_def weekDay_def by presburger+

lemma rev_upto_nth:
  assumes "int j < n"
  shows "rev [1..n] ! j = n - int j"
proof -
  have l: "length [1..n] = nat n" by simp
  have "rev [1..n] ! j = [1..n] ! (nat n - Suc j)"
    using assms by (simp add: rev_nth)
  also have "\<dots> = 1 + int (nat n - Suc j)"
    using assms by (intro nth_upto) linarith
  also have "\<dots> = n - int j" using assms by linarith
  finally show ?thesis .
qed

lemma monthStart_later:
  assumes "0 \<le> m" "m + int k + 1 \<le> 11"
  shows "monthStart (isLeapYear y) m + daysInMonth y m \<le> monthStart (isLeapYear y) (m + int k + 1)"
  using assms
proof (induction k)
  case 0
  then show ?case using monthStart_next [of m y] by simp
next
  case (Suc k)
  have "monthStart (isLeapYear y) (m + int k + 1 + 1)
      = monthStart (isLeapYear y) (m + int k + 1) + daysInMonth y (m + int k + 1)"
    using Suc.prems by (intro monthStart_next) simp_all
  moreover have "monthStart (isLeapYear y) m + daysInMonth y m
      \<le> monthStart (isLeapYear y) (m + int k + 1)"
    using Suc by simp
  ultimately show ?case
    using daysInMonth_range [of y "m + int k + 1"] by (simp add: algebra_simps)
qed

lemma monthStart_mono:
  assumes "0 \<le> m" "m < m'" "m' \<le> 11"
  shows "monthStart (isLeapYear y) m + daysInMonth y m \<le> monthStart (isLeapYear y) m'"
  using monthStart_later [of m "nat (m' - m - 1)" y] assms by simp

text \<open>
  The day number grows with the year, the month and the day of the month, compared in
  this order.
\<close>

lemma civil_less:
  assumes "yearFromDay s < yearFromDay t
         \<or> (yearFromDay s = yearFromDay t \<and>
             (monthFromDay s < monthFromDay t
              \<or> (monthFromDay s = monthFromDay t \<and> dateFromDay s < dateFromDay t)))"
  shows "s < t"
proof -
  have es: "s = dayFromYear (yearFromDay s) + dayWithinYear s"
    and et: "t = dayFromYear (yearFromDay t) + dayWithinYear t"
    by (simp_all add: dayWithinYear_def)
  from assms consider (y) "yearFromDay s < yearFromDay t"
    | (m) "yearFromDay s = yearFromDay t" "monthFromDay s < monthFromDay t"
    | (d) "yearFromDay s = yearFromDay t" "monthFromDay s = monthFromDay t"
        "dateFromDay s < dateFromDay t"
    by blast
  then show ?thesis
  proof cases
    case y
    then have "dayFromYear (yearFromDay s + 1) \<le> dayFromYear (yearFromDay t)"
      by (intro dayFromYear_mono) simp
    with year_bounds [of s] year_bounds [of t] show ?thesis by linarith
  next
    case m
    have "monthStart (isLeapYear (yearFromDay s)) (monthFromDay s)
        + daysInMonth (yearFromDay s) (monthFromDay s)
        \<le> monthStart (isLeapYear (yearFromDay s)) (monthFromDay t)"
      using monthFromDay_range [of s] monthFromDay_range [of t] m(2)
      by (intro monthStart_mono) simp_all
    with dayWithinYear_month [of s] dayWithinYear_month [of t] m(1)
    have "dayWithinYear s < dayWithinYear t" by simp
    with es et m(1) show ?thesis by simp
  next
    case d
    then have "dayWithinYear s < dayWithinYear t" by (simp add: dateFromDay_def)
    with es et d(1) show ?thesis by simp
  qed
qed

lemma civil_eq:
  assumes "yearFromDay s = yearFromDay t" "monthFromDay s = monthFromDay t"
    "dateFromDay s = dateFromDay t"
  shows "s = t"
  using makeDay_civil [of s 0] makeDay_civil [of t 0] assms by simp

lemma civil_less_iff:
  "s < t \<longleftrightarrow>
     yearFromDay s < yearFromDay t
     \<or> (yearFromDay s = yearFromDay t \<and>
         (monthFromDay s < monthFromDay t
          \<or> (monthFromDay s = monthFromDay t \<and> dateFromDay s < dateFromDay t)))"
  (is "_ \<longleftrightarrow> ?L")
proof
  assume ?L then show "s < t" by (rule civil_less)
next
  assume st: "s < t"
  show ?L
  proof (cases "yearFromDay s" "yearFromDay t" rule: linorder_cases)
    case less
    then show ?thesis by simp
  next
    case greater
    then have "t < s" by - (rule civil_less, simp)
    with st show ?thesis by simp
  next
    case y: equal
    show ?thesis
    proof (cases "monthFromDay s" "monthFromDay t" rule: linorder_cases)
      case less
      with y show ?thesis by simp
    next
      case greater
      with y have "t < s" by - (rule civil_less, simp)
      with st show ?thesis by simp
    next
      case m: equal
      show ?thesis
      proof (cases "dateFromDay s" "dateFromDay t" rule: linorder_cases)
        case less
        with y m show ?thesis by simp
      next
        case greater
        with y m have "t < s" by - (rule civil_less, simp)
        with st show ?thesis by simp
      next
        case equal
        with y m have "s = t" by (rule civil_eq)
        with st show ?thesis by simp
      qed
    qed
  qed
qed

section \<open>Properties of the merge\<close>

lemma combineLoop_find:
  "combineLoop ds chs vars =
     (case find (covers ds) chs of
        Some ch \<Rightarrow> (True, False, ch_name ch)
      | None \<Rightarrow> vars)"
  by (induction chs) (simp_all add: covers_def)

text \<open>
  C1. \<open>combineDayData\<close> goes through the custom holidays in the given order. The first
  one whose inclusive bounds contain the key of the day, compared as strings, gives a
  day with \<open>isHoliday = true\<close>, \<open>isWork = false\<close> and its name as \<open>holidayName\<close>, whatever
  the built-in facts are. When none contains the key, the three built-in values are
  passed on. The base facts are kept and \<open>isMarked\<close> is membership in the marked set.
\<close>

theorem combineDayData_first_match:
  "combineDayData base chs marked =
     (case find (covers (dateStr base)) chs of
        Some ch \<Rightarrow>
          BaseDayData.extend base
            (DayData.fields True False (ch_name ch) (dateStr base \<in> marked))
      | None \<Rightarrow>
          BaseDayData.extend base
            (DayData.fields (isBuiltInHoliday base) (isBuiltInWork base)
               (builtInHolidayName base) (dateStr base \<in> marked)))"
  by (simp add: combineDayData_def combineLoop_find split: option.split)

theorem combineDayData_first_match_witness:
  "combineDayData sampleBase sampleHolidays {''2026-02-22''} =
     BaseDayData.extend sampleBase (DayData.fields True False ''X'' True)"
  using combineDayData_first_match [of sampleBase sampleHolidays "{''2026-02-22''}"]
  by (simp add: sampleBase_def sampleHolidays_def covers_def)

section \<open>Properties of the base facts\<close>

lemma cacheKey_inj: "cacheKey ds a = cacheKey ds' b \<Longrightarrow> ds = ds' \<and> a = b"
proof -
  assume "cacheKey ds a = cacheKey ds' b"
  then have "rev (cacheKey ds a) = rev (cacheKey ds' b)" by simp
  then show ?thesis
    by (cases a; cases b) (simp_all add: cacheKey_def)
qed

lemma cacheReachable_entry:
  "cacheReachable P c \<Longrightarrow> c k = Some v \<Longrightarrow>
     \<exists>d icm. k = cacheKey (formatYMD d) icm \<and> v = baseDayData P d icm"
proof (induction arbitrary: k v rule: cacheReachable.induct)
  case cache_empty
  then show ?case by simp
next
  case (cache_step c d icm)
  then show ?case
    by (auto simp: getBaseDayData_def Let_def split: option.splits if_splits)
qed

lemma baseDayData_flags:
  "\<not> (isBuiltInHoliday (baseDayData P d icm) \<and> isBuiltInWork (baseDayData P d icm))"
  by (simp add: baseDayData_def Let_def split: option.split)

text \<open>
  Whatever the table holds, \<open>getBaseDayData\<close> answers with the facts of a day that has
  the key of the day asked for.
\<close>

lemma getBaseDayData_is_baseDayData:
  assumes "cacheReachable P c"
  shows "\<exists>d'. formatYMD d' = formatYMD d \<and> fst (getBaseDayData P d icm c) = baseDayData P d' icm"
proof (cases "c (cacheKey (formatYMD d) icm)")
  case None
  then show ?thesis by (auto simp: getBaseDayData_def)
next
  case (Some v)
  from cacheReachable_entry [OF assms Some] obtain d' icm'
    where k: "cacheKey (formatYMD d) icm = cacheKey (formatYMD d') icm'"
      and v: "v = baseDayData P d' icm'"
    by blast
  from cacheKey_inj [OF k] have "formatYMD d' = formatYMD d" "icm' = icm" by simp_all
  with Some v show ?thesis by (auto simp: getBaseDayData_def)
qed

text \<open>
  C10. For every day, every list of custom holidays and every set of marks, the day
  record never has \<open>isHoliday\<close> and \<open>isWork\<close> both true: the two built-in flags come
  from one \<open>isWork()\<close> answer, so at most one of them holds, and a matching custom holiday
  sets \<open>isHoliday = true\<close> with \<open>isWork = false\<close>. The table of base facts is any table the
  program can have reached.
\<close>

theorem never_holiday_and_work:
  assumes "cacheReachable P c"
  shows "\<not> (isBuiltInHoliday (fst (getBaseDayData P d icm c))
            \<and> isBuiltInWork (fst (getBaseDayData P d icm c)))
       \<and> \<not> (isHoliday (combineDayData (fst (getBaseDayData P d icm c)) chs marked)
            \<and> isWork (combineDayData (fst (getBaseDayData P d icm c)) chs marked))"
proof -
  from getBaseDayData_is_baseDayData [OF assms] obtain d'
    where b: "fst (getBaseDayData P d icm c) = baseDayData P d' icm" by blast
  show ?thesis
    using baseDayData_flags [of P d' icm]
    by (simp add: b combineDayData_def combineLoop_find BaseDayData.extend_def
        DayData.fields_def split: option.split)
qed

theorem never_holiday_and_work_witness:
  "cacheReachable springFestival Map.empty
   \<and> \<not> (isHoliday (combineDayData
              (fst (getBaseDayData springFestival (newDate 2026 1 14) True Map.empty))
              sampleHolidays {})
        \<and> isWork (combineDayData
              (fst (getBaseDayData springFestival (newDate 2026 1 14) True Map.empty))
              sampleHolidays {}))"
  using never_holiday_and_work [OF cache_empty, of springFestival "newDate 2026 1 14" True
      sampleHolidays "{}"]
    cache_empty [of springFestival]
  by simp

section \<open>Properties of the grid of a month\<close>

lemma forUp_fold: "forUp i n body s = foldl (\<lambda>s k. body k s) s [i..n]"
proof (induction i n body s rule: forUp.induct)
  case (1 i n body s)
  show ?case
  proof (cases "i \<le> n")
    case True
    then have "[i..n] = i # [i + 1..n]" by (simp add: upto_rec1)
    with True 1 show ?thesis by (simp add: forUp.simps [of i])
  next
    case False
    then show ?thesis by (simp add: forUp.simps [of i])
  qed
qed

lemma forDown_fold: "forDown i body s = foldl (\<lambda>s k. body k s) s (rev [1..i])"
proof (induction i body s rule: forDown.induct)
  case (1 i body s)
  show ?case
  proof (cases "i > 0")
    case True
    then have "[1..i] = [1..i - 1] @ [i]" by (simp add: upto_rec2)
    with True 1 show ?thesis by (simp add: forDown.simps [of i])
  next
    case False
    then show ?thesis by (simp add: forDown.simps [of i])
  qed
qed

lemma combineDayData_base:
  "dateStr (combineDayData b chs mk) = dateStr b"
  "isCurrentMonth (combineDayData b chs mk) = isCurrentMonth b"
  "date (combineDayData b chs mk) = date b"
  by (simp_all add: combineDayData_def BaseDayData.extend_def split: prod.split)

lemma getBaseDayData_reachable:
  "cacheReachable P c \<Longrightarrow> cacheReachable P (snd (getBaseDayData P d icm c))"
  by (rule cache_step)

lemma getBaseDayData_key:
  assumes "cacheReachable P c"
  shows "dateStr (fst (getBaseDayData P d icm c)) = formatYMD d"
    and "isCurrentMonth (fst (getBaseDayData P d icm c)) = icm"
proof -
  from getBaseDayData_is_baseDayData [OF assms, of d icm] obtain d'
    where "formatYMD d' = formatYMD d" "fst (getBaseDayData P d icm c) = baseDayData P d' icm"
    by blast
  then show "dateStr (fst (getBaseDayData P d icm c)) = formatYMD d"
    and "isCurrentMonth (fst (getBaseDayData P d icm c)) = icm"
    by (simp_all add: baseDayData_def Let_def)
qed

lemma pushDay_key:
  assumes "cacheReachable P c"
  shows "cacheReachable P (snd (pushDay P chs mk d icm (arr, c)))"
    and "map cellKey (fst (pushDay P chs mk d icm (arr, c))) = map cellKey arr @ [(formatYMD d, icm)]"
  using getBaseDayData_key [OF assms, of d icm] getBaseDayData_reachable [OF assms, of d icm]
  by (auto simp: pushDay_def cellKey_def combineDayData_base split: prod.split)

lemma pushDays_key:
  assumes "cacheReachable P (snd s)"
  shows "cacheReachable P (snd (foldl (\<lambda>s k. pushDay P chs mk (f k) icm s) s ks))
       \<and> map cellKey (fst (foldl (\<lambda>s k. pushDay P chs mk (f k) icm s) s ks))
           = map cellKey (fst s) @ map (\<lambda>k. (formatYMD (f k), icm)) ks"
  using assms
proof (induction ks arbitrary: s)
  case Nil
  then show ?case by simp
next
  case (Cons k ks)
  obtain arr c where s: "s = (arr, c)" by (cases s)
  with Cons.prems have c: "cacheReachable P c" by simp
  from pushDay_key [OF c, of chs mk "f k" icm arr]
  have r: "cacheReachable P (snd (pushDay P chs mk (f k) icm s))"
    and m: "map cellKey (fst (pushDay P chs mk (f k) icm s)) = map cellKey (fst s) @ [(formatYMD (f k), icm)]"
    by (simp_all add: s)
  from Cons.IH [OF r] m show ?case by simp
qed

lemma monthViewDays_keys:
  assumes "cacheReachable P c"
  shows "map cellKey (fst (monthViewDays P chs mk month c)) = gridKeys month"
    and "cacheReachable P (snd (monthViewDays P chs mk month c))"
proof -
  define year m where "year = getFullYear month" and "m = getMonth month"
  define s1 where "s1 = foldl (\<lambda>s k. pushDay P chs mk (newDate year m (1 - k)) False s) ([], c)
      (rev [1..startOffsetOf (getDay (newDate year m 1))])"
  define s2 where "s2 = foldl (\<lambda>s k. pushDay P chs mk (newDate year m k) True s) s1
      [1..getDate (newDate year (m + 1) 0)]"
  define s3 where "s3 = foldl (\<lambda>s k. pushDay P chs mk (newDate year (m + 1) k) False s) s2
      [1..42 - int (length (fst s2))]"
  have mv: "monthViewDays P chs mk month c = s3"
    by (simp add: monthViewDays_def Let_def forUp_fold forDown_fold s1_def s2_def s3_def
        year_def m_def)
  have c0: "cacheReachable P (snd (([], c) :: DayData list \<times> baseDayCache))" using assms by simp
  note k1 = pushDays_key [OF c0, of chs mk "\<lambda>k. newDate year m (1 - k)" False
      "rev [1..startOffsetOf (getDay (newDate year m 1))]", folded s1_def]
  note k2 = pushDays_key [OF conjunct1 [OF k1], of chs mk "\<lambda>k. newDate year m k" True
      "[1..getDate (newDate year (m + 1) 0)]", folded s2_def]
  note k3 = pushDays_key [OF conjunct1 [OF k2], of chs mk "\<lambda>k. newDate year (m + 1) k" False
      "[1..42 - int (length (fst s2))]", folded s3_def]
  have l2: "length (fst s2) = length (map cellKey (fst s2))" by simp
  show "map cellKey (fst (monthViewDays P chs mk month c)) = gridKeys month"
    unfolding mv gridKeys_def Let_def year_def [symmetric] m_def [symmetric]
    using k1 k2 k3 by (simp add: l2 del: length_map)
  show "cacheReachable P (snd (monthViewDays P chs mk month c))"
    unfolding mv using k3 by simp
qed

lemma gridKeys_nth:
  fixes month :: Date
  defines "m \<equiv> getMonth month"
  defines "Y \<equiv> effectiveYear (getFullYear month)"
  defines "F \<equiv> makeDay Y m 1"
  defines "off \<equiv> startOffsetOf (weekDay F)"
  defines "n \<equiv> daysInMonth Y m"
  shows "length (gridKeys month) = 42"
    and "j < 42 \<Longrightarrow> gridKeys month ! j =
           (formatYMD \<lparr>localDay = F - off + int j, msInDay = 0\<rparr>, off \<le> int j \<and> int j < off + n)"
proof -
  define year where "year = getFullYear month"
  have m: "0 \<le> m" "m \<le> 11" using monthFromDay_range [of "localDay month"] by (simp_all add: m_def getMonth_def)
  have off: "0 \<le> off" "off \<le> 6" using startOffsetOf_weekDay(2,3) [of F] by (simp_all add: off_def)
  have n: "28 \<le> n" "n \<le> 31" using daysInMonth_range [of Y m] by (simp_all add: n_def)
  have nd: "newDate year m k = \<lparr>localDay = F + k - 1, msInDay = 0\<rparr>" for k
    using newDate_day [of year m k] by (simp add: F_def Y_def year_def)
  have nn: "newDate year (m + 1) k = \<lparr>localDay = F + n + k - 1, msInDay = 0\<rparr>" for k
    using newDate_next_month_day [OF m, of year k] by (simp add: F_def Y_def year_def n_def)
  have gd: "getDay (newDate year m 1) = weekDay F" by (simp add: nd getDay_def)
  have gl: "getDate (newDate year (m + 1) 0) = n"
    using getDate_last_day [OF m, of year] by (simp add: n_def Y_def year_def)
  define A where "A = map (\<lambda>i. (formatYMD (newDate year m (1 - i)), False)) (rev [1..off])"
  define B where "B = map (\<lambda>i. (formatYMD (newDate year m i), True)) [1..n]"
  define C where "C = map (\<lambda>i. (formatYMD (newDate year (m + 1) i), False)) [1..42 - (off + n)]"
  have lA: "length A = nat off" by (simp add: A_def)
  have lB: "length B = nat n" by (simp add: B_def)
  have lAB: "int (length (A @ B)) = off + n" using off n by (simp add: lA lB)
  have lC: "length C = nat (42 - (off + n))" by (simp add: C_def)
  have g: "gridKeys month = A @ B @ C"
    unfolding gridKeys_def Let_def year_def [symmetric] m_def [symmetric] gd gl off_def [symmetric]
      A_def [symmetric] B_def [symmetric] lAB C_def [symmetric] ..
  show "length (gridKeys month) = 42"
    using off n by (simp add: g lA lB lC)
  assume j: "j < 42"
  consider (a) "int j < off" | (b) "off \<le> int j" "int j < off + n" | (c) "off + n \<le> int j"
    by linarith
  then show "gridKeys month ! j =
      (formatYMD \<lparr>localDay = F - off + int j, msInDay = 0\<rparr>, off \<le> int j \<and> int j < off + n)"
  proof cases
    case a
    then have jA: "j < length A" using off by (simp add: lA)
    have "gridKeys month ! j = A ! j" using jA by (simp add: g nth_append)
    also have "\<dots> = (formatYMD (newDate year m (1 - (off - int j))), False)"
      using a jA rev_upto_nth [of j off] by (simp add: A_def)
    also have "newDate year m (1 - (off - int j)) = \<lparr>localDay = F - off + int j, msInDay = 0\<rparr>"
      unfolding nd by simp
    finally show ?thesis using a by simp
  next
    case b
    then have jA: "\<not> j < length A" and jB: "j - length A < length B"
      using off n by (simp_all add: lA lB)
    have i: "int (j - length A) = int j - off" using b off by (simp add: lA)
    have "gridKeys month ! j = B ! (j - length A)" using jA jB by (simp add: g nth_append)
    also have "\<dots> = (formatYMD (newDate year m (1 + int (j - length A))), True)"
      using jB by (simp add: B_def lB )
    also have "newDate year m (1 + int (j - length A)) = \<lparr>localDay = F - off + int j, msInDay = 0\<rparr>"
      unfolding nd i by simp
    finally show ?thesis using b by simp
  next
    case c
    then have jA: "\<not> j < length A" and jB: "\<not> j - length A < length B"
      and jC: "j - length A - length B < length C"
      using off n j by (simp_all add: lA lB lC)
    have i: "int (j - length A - length B) = int j - off - n" using c off n by (simp add: lA lB)
    have "gridKeys month ! j = C ! (j - length A - length B)"
      using jA jB by (simp add: g nth_append)
    also have "\<dots> = (formatYMD (newDate year (m + 1) (1 + int (j - length A - length B))), False)"
      using jC by (simp add: C_def lC )
    also have "newDate year (m + 1) (1 + int (j - length A - length B))
        = \<lparr>localDay = F - off + int j, msInDay = 0\<rparr>"
      unfolding nn i by simp
    finally show ?thesis using c by simp
  qed
qed

lemma monthViewDays_cells:
  assumes "cacheReachable P c"
  shows "length (fst (monthViewDays P chs mk month c)) = 42"
    and "j < 42 \<Longrightarrow>
      cellKey (fst (monthViewDays P chs mk month c) ! j) =
        (formatYMD \<lparr>localDay = makeDay (effectiveYear (getFullYear month)) (getMonth month) 1
             - startOffsetOf (weekDay (makeDay (effectiveYear (getFullYear month)) (getMonth month) 1))
             + int j, msInDay = 0\<rparr>,
         startOffsetOf (weekDay (makeDay (effectiveYear (getFullYear month)) (getMonth month) 1)) \<le> int j
         \<and> int j < startOffsetOf (weekDay (makeDay (effectiveYear (getFullYear month)) (getMonth month) 1))
               + daysInMonth (effectiveYear (getFullYear month)) (getMonth month))"
proof -
  have k: "map cellKey (fst (monthViewDays P chs mk month c)) = gridKeys month"
    by (rule monthViewDays_keys [OF assms])
  have "length (map cellKey (fst (monthViewDays P chs mk month c))) = 42"
    unfolding k by (rule gridKeys_nth(1))
  then show l: "length (fst (monthViewDays P chs mk month c)) = 42" by simp
  assume j: "j < 42"
  then have "cellKey (fst (monthViewDays P chs mk month c) ! j)
      = map cellKey (fst (monthViewDays P chs mk month c)) ! j"
    using l by simp
  also have "\<dots> = gridKeys month ! j" by (simp only: k)
  finally show "cellKey (fst (monthViewDays P chs mk month c) ! j) =
        (formatYMD \<lparr>localDay = makeDay (effectiveYear (getFullYear month)) (getMonth month) 1
             - startOffsetOf (weekDay (makeDay (effectiveYear (getFullYear month)) (getMonth month) 1))
             + int j, msInDay = 0\<rparr>,
         startOffsetOf (weekDay (makeDay (effectiveYear (getFullYear month)) (getMonth month) 1)) \<le> int j
         \<and> int j < startOffsetOf (weekDay (makeDay (effectiveYear (getFullYear month)) (getMonth month) 1))
               + daysInMonth (effectiveYear (getFullYear month)) (getMonth month))"
    using gridKeys_nth(2) [OF j, of month] by simp
qed

text \<open>
  The grid of a month whose year is not one of 0 to 99. \<open>first\<close> is the first day of the
  month and \<open>first + n - 1\<close> its last day; the grid holds the 42 days from the Monday on
  or before \<open>first\<close>, the first of the month stands at the index \<open>off\<close>, and
  \<open>isCurrentMonth\<close> holds exactly for the days from \<open>first\<close> to the last day.
\<close>

lemma monthViewDays_grid:
  fixes month :: Date
  defines "first \<equiv> localDay month - getDate month + 1"
  defines "n \<equiv> daysInMonth (getFullYear month) (getMonth month)"
  defines "off \<equiv> startOffsetOf (weekDay first)"
  assumes c: "cacheReachable P c"
    and y: "getFullYear month < 0 \<or> 99 < getFullYear month"
  shows "length (fst (monthViewDays P chs mk month c)) = 42"
    and "yearFromDay first = getFullYear month \<and> monthFromDay first = getMonth month
         \<and> dateFromDay first = 1"
    and "yearFromDay (first + n - 1) = getFullYear month
         \<and> monthFromDay (first + n - 1) = getMonth month \<and> dateFromDay (first + n - 1) = n"
    and "0 \<le> off \<and> off \<le> 6 \<and> weekDay (first - off) = 1"
    and "j < 42 \<Longrightarrow>
         dateStr (fst (monthViewDays P chs mk month c) ! j)
           = formatYMD \<lparr>localDay = first - off + int j, msInDay = 0\<rparr>"
    and "j < 42 \<Longrightarrow>
         isCurrentMonth (fst (monthViewDays P chs mk month c) ! j)
           \<longleftrightarrow> first \<le> first - off + int j \<and> first - off + int j \<le> first + n - 1"
proof -
  let ?Y = "getFullYear month" and ?m = "getMonth month"
  have e: "effectiveYear ?Y = ?Y" using y by (auto simp: effectiveYear_def)
  have m: "0 \<le> ?m" "?m \<le> 11"
    using monthFromDay_range [of "localDay month"] by (simp_all add: getMonth_def)
  have f: "makeDay ?Y ?m 1 = first"
    using makeDay_civil [of "localDay month" "1 - dateFromDay (localDay month)"]
    by (simp add: first_def getFullYear_def getMonth_def getDate_def)
  have l: "makeDay ?Y ?m n = first + n - 1"
    using makeDay_date [of ?Y ?m n] f by simp
  have nr: "28 \<le> n" "n \<le> 31" using daysInMonth_range [of ?Y ?m] by (simp_all add: n_def)
  show "length (fst (monthViewDays P chs mk month c)) = 42"
    by (rule monthViewDays_cells(1) [OF c])
  show "yearFromDay first = ?Y \<and> monthFromDay first = ?m \<and> dateFromDay first = 1"
    using civil_of_makeDay [OF m, of 1 ?Y] nr by (simp add: f n_def)
  show "yearFromDay (first + n - 1) = ?Y \<and> monthFromDay (first + n - 1) = ?m
      \<and> dateFromDay (first + n - 1) = n"
    using civil_of_makeDay [OF m, of n ?Y] nr unfolding l by (simp add: n_def)
  show "0 \<le> off \<and> off \<le> 6 \<and> weekDay (first - off) = 1"
    using startOffsetOf_weekDay(2,3,4) [of first] by (simp add: off_def)
  assume j: "j < 42"
  note k = monthViewDays_cells(2) [OF c j, of chs mk month, unfolded e f, folded off_def n_def]
  show "dateStr (fst (monthViewDays P chs mk month c) ! j)
      = formatYMD \<lparr>localDay = first - off + int j, msInDay = 0\<rparr>"
    using k by (simp add: cellKey_def)
  show "isCurrentMonth (fst (monthViewDays P chs mk month c) ! j)
      \<longleftrightarrow> first \<le> first - off + int j \<and> first - off + int j \<le> first + n - 1"
    using k by (auto simp: cellKey_def)
qed

lemma feb_2026_facts:
  "getFullYear (newDate 2026 1 1) = 2026"
  "getMonth (newDate 2026 1 1) = 1"
  "makeDay 2026 1 1 = 20485"
  "getDay (newDate 2026 1 1) = 0"
  "getDay (newDate 2026 0 26) = 1"
  "formatYMD \<lparr>localDay = 20479, msInDay = 0\<rparr> = ''2026-01-26''"
  "formatYMD \<lparr>localDay = 20485, msInDay = 0\<rparr> = ''2026-02-01''"
  by code_simp+

text \<open>
  C7. February 2026 begins on a Sunday, so the leading offset of its grid is 6: the
  first cell is Monday 2026-01-26 and the cell with index 6 is 2026-02-01.
\<close>

theorem february_2026_grid:
  assumes "cacheReachable P c"
  shows "getDay (newDate 2026 1 1) = 0
       \<and> startOffsetOf (getDay (newDate 2026 1 1)) = 6
       \<and> length (fst (monthViewDays P chs mk (newDate 2026 1 1) c)) = 42
       \<and> dateStr (fst (monthViewDays P chs mk (newDate 2026 1 1) c) ! 0) = ''2026-01-26''
       \<and> getDay (newDate 2026 0 26) = 1
       \<and> dateStr (fst (monthViewDays P chs mk (newDate 2026 1 1) c) ! 6) = ''2026-02-01''"
proof -
  note c = monthViewDays_cells [OF assms, where chs = chs and mk = mk and month = "newDate 2026 1 1"]
  have o: "startOffsetOf (weekDay 20485) = 6" by (simp add: startOffsetOf_def weekDay_def)
  have "cellKey (fst (monthViewDays P chs mk (newDate 2026 1 1) c) ! 0) = (''2026-01-26'', False)"
    using c(2) [where j = 0] by (simp add: feb_2026_facts effectiveYear_def o)
  moreover
  have "cellKey (fst (monthViewDays P chs mk (newDate 2026 1 1) c) ! 6) = (''2026-02-01'', True)"
    using c(2) [where j = 6] by (simp add: feb_2026_facts effectiveYear_def o daysInMonth_def)
  ultimately show ?thesis
    using c(1) by (simp add: cellKey_def feb_2026_facts startOffsetOf_def)
qed

theorem february_2026_grid_witness:
  "cacheReachable springFestival Map.empty
   \<and> dateStr (fst (monthViewDays springFestival sampleHolidays {} (newDate 2026 1 1) Map.empty) ! 0)
       = ''2026-01-26''
   \<and> dateStr (fst (monthViewDays springFestival sampleHolidays {} (newDate 2026 1 1) Map.empty) ! 6)
       = ''2026-02-01''"
  using february_2026_grid [OF cache_empty, of springFestival sampleHolidays "{}"]
    cache_empty [of springFestival]
  by simp

lemma march_50_facts:
  "getFullYear marchYear50 = 50"
  "getMonth marchYear50 = 2"
  "getDate marchYear50 = 1"
  "getDay marchYear50 = 2"
  "formatYMD marchYear50 = ''0050-03-01''"
  "makeDay 1950 2 1 = - 7246"
  "formatYMD \<lparr>localDay = - 7247, msInDay = 0\<rparr> = ''1950-02-28''"
  "formatYMD \<lparr>localDay = - 7246, msInDay = 0\<rparr> = ''1950-03-01''"
  unfolding marchYear50_def by code_simp+

text \<open>
  C2 at a month of the year 50. The constructor \<open>new Date(year, m, 1)\<close> reads the year
  50 as 1950, so the grid built for March of the year 50, whose first day is a Tuesday
  (offset 1), is the grid of March 1950: the cell with index 1 is 1950-02-28 and the cell
  with index 2, flagged as a day of the month, is 1950-03-01.
\<close>

theorem monthViewDays_year_50:
  "getFullYear marchYear50 = 50 \<and> getMonth marchYear50 = 2 \<and> getDate marchYear50 = 1
   \<and> formatYMD marchYear50 = ''0050-03-01''
   \<and> startOffsetOf (getDay marchYear50) = 1
   \<and> cellKey (fst (monthViewDays P chs mk marchYear50 Map.empty) ! 1) = (''1950-02-28'', False)
   \<and> cellKey (fst (monthViewDays P chs mk marchYear50 Map.empty) ! 2) = (''1950-03-01'', True)"
proof -
  note c = monthViewDays_cells [OF cache_empty, where P = P and chs = chs and mk = mk and month = marchYear50]
  have o: "startOffsetOf (weekDay (- 7246)) = 2" by (simp add: startOffsetOf_def weekDay_def)
  have "cellKey (fst (monthViewDays P chs mk marchYear50 Map.empty) ! 1) = (''1950-02-28'', False)"
    using c(2) [where j = 1] by (simp add: march_50_facts effectiveYear_def o)
  moreover
  have "cellKey (fst (monthViewDays P chs mk marchYear50 Map.empty) ! 2) = (''1950-03-01'', True)"
    using c(2) [where j = 2] by (simp add: march_50_facts effectiveYear_def o daysInMonth_def)
  ultimately show ?thesis
    by (simp add: march_50_facts startOffsetOf_def)
qed

section \<open>Properties of the holiday blocks\<close>

text \<open>
  C6. For every grid and every cell of it, \<open>blockStart\<close> is true exactly when the day is
  a holiday and is the first cell or follows a cell that is no holiday or has another
  holiday name, or when the day is a Monday; \<open>blockEnd\<close> is true exactly when the day is
  a holiday and is the last cell or precedes a cell that is no holiday or has another
  holiday name, or when the day is a Sunday. A holiday alone between two ordinary days
  has both flags.
\<close>

theorem block_flags:
  assumes "idx < length days"
  shows "(blockStart days idx \<longleftrightarrow>
            (isHoliday (days ! idx) \<and>
               (idx = 0 \<or> \<not> isHoliday (days ! (idx - 1))
                  \<or> holidayName (days ! (idx - 1)) \<noteq> holidayName (days ! idx)))
            \<or> getDay (date (days ! idx)) = 1)
       \<and> (blockEnd days idx \<longleftrightarrow>
            (isHoliday (days ! idx) \<and>
               (idx = length days - 1 \<or> \<not> isHoliday (days ! (idx + 1))
                  \<or> holidayName (days ! (idx + 1)) \<noteq> holidayName (days ! idx)))
            \<or> getDay (date (days ! idx)) = 0)"
  using assms
  by (auto simp: blockStart_def blockEnd_def isHolidayStart_def isHolidayEnd_def
      isRowStart_def isRowEnd_def prevDay_def nextDay_def Let_def)

theorem block_flags_witness:
  "(1::nat) < length sampleRow \<and> blockStart sampleRow 1 \<and> blockEnd sampleRow 1
   \<and> getDay (date (sampleRow ! 1)) = 3"
  using block_flags [of 1 sampleRow]
  by (simp add: sampleRow_def sampleCell_def getDay_def weekDay_def)

section \<open>Properties of the holiday progress\<close>

lemma setDate_shift: "setDate d (getDate d + k) = d\<lparr>localDay := localDay d + k\<rparr>"
  using makeDay_civil [of "localDay d" k]
  by (simp add: setDate_def getFullYear_def getMonth_def getDate_def)

lemma setDate_pred: "setDate d (getDate d - 1) = d\<lparr>localDay := localDay d - 1\<rparr>"
  using setDate_shift [of d "- 1"] by simp

lemma setDate_succ: "setDate d (getDate d + 1) = d\<lparr>localDay := localDay d + 1\<rparr>"
  by (rule setDate_shift)

lemma differenceInDays_same_time:
  assumes "msInDay a = msInDay b"
  shows "differenceInDays a b = localDay a - localDay b"
proof -
  have s: "setDate a (getDate a - k) = a\<lparr>localDay := localDay a - k\<rparr>" for k
    using setDate_shift [of a "- k"] by simp
  show ?thesis
    using assms
    by (simp add: differenceInDays_def Let_def s compareLocalAsc_def differenceInCalendarDays_def)
qed

lemma differenceInDays_from_midnight:
  assumes "msInDay b = 0" "localDay b \<le> localDay a"
  shows "differenceInDays a b = localDay a - localDay b"
proof -
  have s: "setDate a (getDate a - k) = a\<lparr>localDay := localDay a - k\<rparr>" for k
    using setDate_shift [of a "- k"] by simp
  show ?thesis
    using assms
    by (simp add: differenceInDays_def Let_def s compareLocalAsc_def differenceInCalendarDays_def)
qed

lemma newDateOfString_midnight: "newDateOfString s = Some d \<Longrightarrow> msInDay d = 0"
  by (auto simp: newDateOfString_def split: if_splits option.splits)

lemma sameHoliday_restDayOf: "sameHoliday P name d = restDayOf P name (localDay d)"
  by (simp add: sameHoliday_def restDayOf_def getFullYear_def getMonth_def getDate_def)

lemma formatYMD_day: "formatYMD d = formatYMD \<lparr>localDay = localDay d, msInDay = 0\<rparr>"
  by (simp add: formatYMD_def getFullYear_def getMonth_def getDate_def)

lemma scanBack_unfold:
  "scanBack P name d =
     (if restDayOf P name (localDay d - 1) then scanBack P name (d\<lparr>localDay := localDay d - 1\<rparr>)
      else Some d)"
  by (subst scanBack.simps) (simp add: setDate_pred sameHoliday_restDayOf)

lemma scanForward_unfold:
  "scanForward P name d =
     (if restDayOf P name (localDay d + 1) then scanForward P name (d\<lparr>localDay := localDay d + 1\<rparr>)
      else Some d)"
  by (subst scanForward.simps) (simp add: setDate_succ sameHoliday_restDayOf)

lemma scanBack_result:
  assumes "a \<le> localDay d" "\<forall>t. a \<le> t \<and> t < localDay d \<longrightarrow> restDayOf P name t"
    "\<not> restDayOf P name (a - 1)"
  shows "scanBack P name d = Some (d\<lparr>localDay := a\<rparr>)"
  using assms
proof (induction "nat (localDay d - a)" arbitrary: d)
  case 0
  then have "localDay d = a" by simp
  with 0 show ?case by (subst scanBack_unfold) auto
next
  case (Suc n)
  let ?p = "d\<lparr>localDay := localDay d - 1\<rparr>"
  from Suc have lt: "a < localDay d" by linarith
  then have r: "restDayOf P name (localDay d - 1)" using Suc.prems(2) by simp
  have "scanBack P name ?p = Some (?p\<lparr>localDay := a\<rparr>)"
    using Suc.hyps(2) lt Suc.prems(2,3) by (intro Suc.hyps(1)) auto
  with r show ?case by (subst scanBack_unfold) simp
qed

lemma scanForward_result:
  assumes "localDay d \<le> b" "\<forall>t. localDay d < t \<and> t \<le> b \<longrightarrow> restDayOf P name t"
    "\<not> restDayOf P name (b + 1)"
  shows "scanForward P name d = Some (d\<lparr>localDay := b\<rparr>)"
  using assms
proof (induction "nat (b - localDay d)" arbitrary: d)
  case 0
  then have "localDay d = b" by simp
  with 0 show ?case by (subst scanForward_unfold) auto
next
  case (Suc n)
  let ?p = "d\<lparr>localDay := localDay d + 1\<rparr>"
  from Suc have lt: "localDay d < b" by linarith
  then have r: "restDayOf P name (localDay d + 1)" using Suc.prems(2) by simp
  have "scanForward P name ?p = Some (?p\<lparr>localDay := b\<rparr>)"
    using Suc.hyps(2) lt Suc.prems(2,3) by (intro Suc.hyps(1)) auto
  with r show ?case by (subst scanForward_unfold) simp
qed

text \<open>A loop that returns has met a day that is no rest day of the holiday.\<close>

lemma scanBack_Some:
  assumes "scanBack P name d = Some r"
  shows "\<exists>t<localDay d. \<not> restDayOf P name t"
proof -
  have "(case ((P, name), d) of ((P, name), d) \<Rightarrow> \<lambda>r. \<exists>t<localDay d. \<not> restDayOf P name t) r"
  proof (rule scanBack.raw_induct [OF _ assms], goal_cases)
    case (1 f P name d r)
    let ?prev = "setDate d (getDate d - 1)"
    have p: "localDay ?prev = localDay d - 1" by (simp add: setDate_pred)
    show ?case
    proof (cases "sameHoliday P name ?prev")
      case True
      with 1(2) have "f P name ?prev = Some r" by (simp add: Let_def)
      from 1(1) [OF this] p obtain t where "t < localDay d - 1" "\<not> restDayOf P name t" by auto
      then have "\<exists>t<localDay d. \<not> restDayOf P name t" by (intro exI [of _ t]) simp
      then show ?thesis by simp
    next
      case False
      then have "\<not> restDayOf P name (localDay d - 1)" by (simp add: sameHoliday_restDayOf p)
      then have "\<exists>t<localDay d. \<not> restDayOf P name t" by (intro exI [of _ "localDay d - 1"]) simp
      then show ?thesis by simp
    qed
  qed
  then show ?thesis by simp
qed

lemma scanForward_Some:
  assumes "scanForward P name d = Some r"
  shows "\<exists>t>localDay d. \<not> restDayOf P name t"
proof -
  have "(case ((P, name), d) of ((P, name), d) \<Rightarrow> \<lambda>r. \<exists>t>localDay d. \<not> restDayOf P name t) r"
  proof (rule scanForward.raw_induct [OF _ assms], goal_cases)
    case (1 f P name d r)
    let ?next = "setDate d (getDate d + 1)"
    have p: "localDay ?next = localDay d + 1" by (simp add: setDate_succ)
    show ?case
    proof (cases "sameHoliday P name ?next")
      case True
      with 1(2) have "f P name ?next = Some r" by (simp add: Let_def)
      from 1(1) [OF this] p obtain t where "localDay d + 1 < t" "\<not> restDayOf P name t" by auto
      then have "\<exists>t>localDay d. \<not> restDayOf P name t" by (intro exI [of _ t]) simp
      then show ?thesis by simp
    next
      case False
      then have "\<not> restDayOf P name (localDay d + 1)" by (simp add: sameHoliday_restDayOf p)
      then have "\<exists>t>localDay d. \<not> restDayOf P name t" by (intro exI [of _ "localDay d + 1"]) simp
      then show ?thesis by simp
    qed
  qed
  then show ?thesis by simp
qed

lemma scanBack_returns:
  assumes "t < localDay d" "\<not> restDayOf P name t"
  shows "\<exists>r. scanBack P name d = Some r"
  using assms
proof (induction "nat (localDay d - t)" arbitrary: d)
  case 0
  then show ?case by simp
next
  case (Suc n)
  show ?case
  proof (cases "restDayOf P name (localDay d - 1)")
    case True
    with Suc.prems have "t \<noteq> localDay d - 1" by auto
    with Suc.prems have lt: "t < localDay d - 1" by simp
    have "\<exists>r. scanBack P name (d\<lparr>localDay := localDay d - 1\<rparr>) = Some r"
      using Suc.hyps(2) lt Suc.prems(2) by (intro Suc.hyps(1)) auto
    with True show ?thesis by (subst scanBack_unfold) simp
  next
    case False
    then show ?thesis by (subst scanBack_unfold) simp
  qed
qed

lemma scanForward_returns:
  assumes "localDay d < t" "\<not> restDayOf P name t"
  shows "\<exists>r. scanForward P name d = Some r"
  using assms
proof (induction "nat (t - localDay d)" arbitrary: d)
  case 0
  then show ?case by simp
next
  case (Suc n)
  show ?case
  proof (cases "restDayOf P name (localDay d + 1)")
    case True
    with Suc.prems have "t \<noteq> localDay d + 1" by auto
    with Suc.prems have lt: "localDay d + 1 < t" by simp
    have "\<exists>r. scanForward P name (d\<lparr>localDay := localDay d + 1\<rparr>) = Some r"
      using Suc.hyps(2) lt Suc.prems(2) by (intro Suc.hyps(1)) auto
    with True show ?thesis by (subst scanForward_unfold) simp
  next
    case False
    then show ?thesis by (subst scanForward_unfold) simp
  qed
qed

lemma feb_2026_day:
  assumes "1 \<le> dd" "dd \<le> 28"
  shows "yearFromDay (20484 + dd) = 2026" "monthFromDay (20484 + dd) = 1"
    "dateFromDay (20484 + dd) = dd"
proof -
  have l: "\<not> isLeapYear 2026" by (simp add: isLeapYear_def)
  have m: "makeDay 2026 1 dd = 20484 + dd"
    by (simp add: makeDay_def dayFromYear_def monthStart_def l)
  have d: "dd \<le> daysInMonth 2026 1" using assms by (simp add: daysInMonth_def l)
  show "yearFromDay (20484 + dd) = 2026" "monthFromDay (20484 + dd) = 1"
    "dateFromDay (20484 + dd) = dd"
    using civil_of_makeDay [of 1 dd 2026] assms d by (simp_all add: m)
qed

lemma springFestival_rest:
  assumes "1 \<le> dd" "dd \<le> 28"
  shows "restDayOf springFestival n (20484 + dd) \<longleftrightarrow> 15 \<le> dd \<and> dd \<le> 23 \<and> n = ''Spring Festival''"
  using feb_2026_day [OF assms]
  by (auto simp: restDayOf_def sameHoliday_def getFullYear_def getMonth_def getDate_def
      springFestival_def)

lemma sample_parse:
  "newDateOfString (''2026-02-20'' @ ''T00:00:00'') = Some \<lparr>localDay = 20504, msInDay = 0\<rparr>"
  "newDateOfString (''2026-02-23'' @ ''T00:00:00'') = Some \<lparr>localDay = 20507, msInDay = 0\<rparr>"
  "formatYMD \<lparr>localDay = 20506, msInDay = 0\<rparr> = ''2026-02-22''"
  "formatYMD \<lparr>localDay = 20522, msInDay = 0\<rparr> = ''2026-03-10''"
  "monthFromDay 20522 = 2"
  by code_simp+

text \<open>
  C3. When a custom holiday is the first whose bounds contain the key of the reference
  date, its bounds are days \<open>s\<close> and \<open>e\<close>, and \<open>s\<close> is not after the reference date, then the
  progress has the name of that holiday, the day index (reference date - \<open>s\<close>, in days)
  + 1 and the remainder (\<open>e\<close> - \<open>s\<close> + 1) - day index. With the bounds 2026-02-20 and
  2026-02-23 and the reference date 2026-02-22 the day index is 3 and the remainder 1.
\<close>

theorem holidayProgress_custom:
  assumes "find (covers (formatYMD currentDate)) chs = Some ch"
    and "newDateOfString (ch_start ch @ ''T00:00:00'') = Some s"
    and "newDateOfString (ch_end ch @ ''T00:00:00'') = Some e"
    and "localDay s \<le> localDay currentDate"
  shows "holidayProgress P currentDate chs =
     Some (Some \<lparr>hp_name = ch_name ch,
                 hp_current = Number (localDay currentDate - localDay s + 1),
                 hp_remaining = Number ((localDay e - localDay s + 1)
                                        - (localDay currentDate - localDay s + 1))\<rparr>)"
proof -
  have f: "find (\<lambda>h. ch_start h \<le> formatYMD currentDate \<and> formatYMD currentDate \<le> ch_end h) chs
      = Some ch"
    using assms(1) by (simp add: covers_def [abs_def])
  have ms: "msInDay s = 0" "msInDay e = 0"
    using assms(2,3) by (auto dest: newDateOfString_midnight)
  have t: "differenceInDays e s = localDay e - localDay s"
    by (rule differenceInDays_same_time) (simp add: ms)
  have c: "differenceInDays currentDate s = localDay currentDate - localDay s"
    by (rule differenceInDays_from_midnight) (use ms assms(4) in simp_all)
  show ?thesis
    by (simp add: holidayProgress_def Let_def f customProgress_def assms(2,3) t c)
qed

theorem holidayProgress_custom_witness:
  "find (covers (formatYMD sampleNow)) sampleHolidays = Some (sampleHolidays ! 1)
   \<and> ch_start (sampleHolidays ! 1) = ''2026-02-20'' \<and> ch_end (sampleHolidays ! 1) = ''2026-02-23''
   \<and> holidayProgress springFestival sampleNow sampleHolidays =
       Some (Some \<lparr>hp_name = ''X'', hp_current = Number 3, hp_remaining = Number 1\<rparr>)"
proof -
  have k: "formatYMD sampleNow = ''2026-02-22''"
    by (subst formatYMD_day) (simp add: sampleNow_def sample_parse)
  have f: "find (covers (formatYMD sampleNow)) sampleHolidays = Some (sampleHolidays ! 1)"
    by (simp add: k sampleHolidays_def covers_def)
  have s: "newDateOfString (ch_start (sampleHolidays ! 1) @ ''T00:00:00'')
      = Some \<lparr>localDay = 20504, msInDay = 0\<rparr>"
    using sample_parse(1) by (simp add: sampleHolidays_def)
  have e: "newDateOfString (ch_end (sampleHolidays ! 1) @ ''T00:00:00'')
      = Some \<lparr>localDay = 20507, msInDay = 0\<rparr>"
    using sample_parse(2) by (simp add: sampleHolidays_def)
  have "localDay \<lparr>localDay = 20504, msInDay = 0\<rparr> \<le> localDay sampleNow"
    by (simp add: sampleNow_def)
  from holidayProgress_custom [OF f s e this, of springFestival] f
  show ?thesis by (simp add: sampleHolidays_def sampleNow_def)
qed

text \<open>
  C4. When no custom holiday contains the key of the reference date: if the table has
  a rest day \<open>h\<close> for the reference date and the days from \<open>a\<close> to \<open>b\<close> around it are the
  block of rest days with the name of \<open>h\<close> (the day before \<open>a\<close> and the day after \<open>b\<close> are
  not), the two loops stop at \<open>a\<close> and \<open>b\<close>, and the progress has the day index
  (reference date - \<open>a\<close>) + 1 and the remainder (\<open>b\<close> - \<open>a\<close> + 1) - day index; if the table
  has no entry for the reference date, or a working day, the result is \<open>null\<close>.
\<close>

theorem holidayProgress_builtin:
  assumes "find (covers (formatYMD currentDate)) chs = None"
  shows "(\<forall>h a b.
            getHoliday P (getFullYear currentDate) (getMonth currentDate + 1) (getDate currentDate)
              = Some h
            \<and> \<not> h_isWork h \<and> a \<le> localDay currentDate \<and> localDay currentDate \<le> b
            \<and> (\<forall>t. a \<le> t \<and> t \<le> b \<longrightarrow> restDayOf P (h_getName h) t)
            \<and> \<not> restDayOf P (h_getName h) (a - 1) \<and> \<not> restDayOf P (h_getName h) (b + 1)
            \<longrightarrow> holidayProgress P currentDate chs =
                  Some (Some \<lparr>hp_name = h_getName h,
                              hp_current = Number (localDay currentDate - a + 1),
                              hp_remaining = Number ((b - a + 1) - (localDay currentDate - a + 1))\<rparr>))
       \<and> ((case getHoliday P (getFullYear currentDate) (getMonth currentDate + 1)
                   (getDate currentDate) of
              None \<Rightarrow> True | Some h \<Rightarrow> h_isWork h)
            \<longrightarrow> holidayProgress P currentDate chs = Some None)"
proof -
  have f: "find (\<lambda>h. ch_start h \<le> formatYMD currentDate \<and> formatYMD currentDate \<le> ch_end h) chs
      = None"
    using assms by (simp add: covers_def [abs_def])
  have 1: "holidayProgress P currentDate chs =
      Some (Some \<lparr>hp_name = h_getName h,
                  hp_current = Number (localDay currentDate - a + 1),
                  hp_remaining = Number ((b - a + 1) - (localDay currentDate - a + 1))\<rparr>)"
    if h: "getHoliday P (getFullYear currentDate) (getMonth currentDate + 1) (getDate currentDate)
          = Some h" "\<not> h_isWork h"
      and ab: "a \<le> localDay currentDate" "localDay currentDate \<le> b"
      and blk: "\<forall>t. a \<le> t \<and> t \<le> b \<longrightarrow> restDayOf P (h_getName h) t"
      and edge: "\<not> restDayOf P (h_getName h) (a - 1)" "\<not> restDayOf P (h_getName h) (b + 1)"
    for h a b
  proof -
    have sb: "scanBack P (h_getName h) currentDate = Some (currentDate\<lparr>localDay := a\<rparr>)"
      using ab blk edge by (intro scanBack_result) auto
    have sf: "scanForward P (h_getName h) currentDate = Some (currentDate\<lparr>localDay := b\<rparr>)"
      using ab blk edge by (intro scanForward_result) auto
    have t: "differenceInDays (currentDate\<lparr>localDay := b\<rparr>) (currentDate\<lparr>localDay := a\<rparr>) = b - a"
      using differenceInDays_same_time
        [of "currentDate\<lparr>localDay := b\<rparr>" "currentDate\<lparr>localDay := a\<rparr>"] by simp
    have c: "differenceInDays currentDate (currentDate\<lparr>localDay := a\<rparr>) = localDay currentDate - a"
      using differenceInDays_same_time [of currentDate "currentDate\<lparr>localDay := a\<rparr>"] by simp
    show ?thesis
      by (simp add: holidayProgress_def Let_def f h sb sf t c)
  qed
  have 2: "holidayProgress P currentDate chs = Some None"
    if "case getHoliday P (getFullYear currentDate) (getMonth currentDate + 1)
            (getDate currentDate) of None \<Rightarrow> True | Some h \<Rightarrow> h_isWork h"
    using that
    by (cases "getHoliday P (getFullYear currentDate) (getMonth currentDate + 1)
          (getDate currentDate)") (simp_all add: holidayProgress_def Let_def f)
  show ?thesis using 1 2 by blast
qed

theorem holidayProgress_builtin_witness:
  "find (covers (formatYMD sampleNow)) [] = None
   \<and> holidayProgress springFestival sampleNow [] =
       Some (Some \<lparr>hp_name = ''Spring Festival'', hp_current = Number 8,
                   hp_remaining = Number 1\<rparr>)
   \<and> holidayProgress springFestival sampleLater [] = Some None"
proof -
  let ?h = "\<lparr>h_isWork = False, h_getName = ''Spring Festival''\<rparr>"
  have n: "getHoliday springFestival (getFullYear sampleNow) (getMonth sampleNow + 1)
      (getDate sampleNow) = Some ?h"
    using feb_2026_day [of 22]
    by (simp add: sampleNow_def getFullYear_def getMonth_def getDate_def springFestival_def)
  have blk: "\<forall>t. 20499 \<le> t \<and> t \<le> 20507 \<longrightarrow> restDayOf springFestival (h_getName ?h) t"
  proof (intro allI impI)
    fix t :: int
    assume "20499 \<le> t \<and> t \<le> 20507"
    then show "restDayOf springFestival (h_getName ?h) t"
      using springFestival_rest [of "t - 20484" "h_getName ?h"] by simp
  qed
  have edge: "\<not> restDayOf springFestival (h_getName ?h) (20499 - 1)"
      "\<not> restDayOf springFestival (h_getName ?h) (20507 + 1)"
    using springFestival_rest [of 14 "h_getName ?h"] springFestival_rest [of 24 "h_getName ?h"]
    by simp_all
  have l: "getHoliday springFestival (getFullYear sampleLater) (getMonth sampleLater + 1)
      (getDate sampleLater) = None"
    by (simp add: springFestival_def getMonth_def sampleLater_def sample_parse(5))
  have "holidayProgress springFestival sampleNow [] =
      Some (Some \<lparr>hp_name = ''Spring Festival'', hp_current = Number 8,
                  hp_remaining = Number 1\<rparr>)"
    using holidayProgress_builtin [of sampleNow "[]" springFestival,
        THEN conjunct1, rule_format, of ?h 20499 20507] n blk edge
    by (simp add: sampleNow_def)
  moreover have "holidayProgress springFestival sampleLater [] = Some None"
    using holidayProgress_builtin [of sampleLater "[]" springFestival, THEN conjunct2] l
    by simp
  ultimately show ?thesis by simp
qed

text \<open>
  C5 as stated fails: the two loops have no bound. With a table that names every day a
  rest day of the same holiday, \<open>holidayProgress\<close> does not return.
\<close>

theorem holidayProgress_endless:
  "holidayProgress endlessHoliday sampleNow [] = None"
proof -
  have r: "restDayOf endlessHoliday ''Rest'' t" for t
    by (simp add: restDayOf_def sameHoliday_def endlessHoliday_def)
  have "scanBack endlessHoliday ''Rest'' sampleNow = None"
  proof (cases "scanBack endlessHoliday ''Rest'' sampleNow")
    case (Some d)
    from scanBack_Some [OF this] r show ?thesis by blast
  qed simp
  then show ?thesis
    by (simp add: holidayProgress_def Let_def endlessHoliday_def)
qed

text \<open>
  C5, amended. \<open>holidayProgress\<close> returns exactly when a custom holiday contains the key
  of the reference date, or the table has no rest day for the reference date, or some
  earlier day and some later day are not rest days of the holiday of the reference date.
  The loops have no bound of their own and there is no result for a scan that is too
  long.
\<close>

theorem holidayProgress_returns_iff:
  "(\<exists>r. holidayProgress P currentDate chs = Some r) \<longleftrightarrow>
     (find (covers (formatYMD currentDate)) chs \<noteq> None
      \<or> (case getHoliday P (getFullYear currentDate) (getMonth currentDate + 1)
                 (getDate currentDate) of
            None \<Rightarrow> True
          | Some h \<Rightarrow>
              h_isWork h
              \<or> ((\<exists>a<localDay currentDate. \<not> restDayOf P (h_getName h) a)
                 \<and> (\<exists>b>localDay currentDate. \<not> restDayOf P (h_getName h) b))))"
proof (cases "find (covers (formatYMD currentDate)) chs")
  case (Some ch)
  then have "find (\<lambda>h. ch_start h \<le> formatYMD currentDate \<and> formatYMD currentDate \<le> ch_end h) chs
      = Some ch"
    by (simp add: covers_def [abs_def])
  then show ?thesis using Some by (simp add: holidayProgress_def Let_def)
next
  case None
  then have f: "find (\<lambda>h. ch_start h \<le> formatYMD currentDate \<and> formatYMD currentDate \<le> ch_end h) chs
      = None"
    by (simp add: covers_def [abs_def])
  show ?thesis
  proof (cases "getHoliday P (getFullYear currentDate) (getMonth currentDate + 1)
      (getDate currentDate)")
    case n: None
    then show ?thesis using None by (simp add: holidayProgress_def Let_def f)
  next
    case s: (Some h)
    show ?thesis
    proof (cases "h_isWork h")
      case True
      then show ?thesis using None s by (simp add: holidayProgress_def Let_def f)
    next
      case False
      let ?B = "scanBack P (h_getName h) currentDate"
      let ?F = "scanForward P (h_getName h) currentDate"
      have hp: "(\<exists>r. holidayProgress P currentDate chs = Some r) \<longleftrightarrow> (\<exists>y. ?B = Some y) \<and> (\<exists>y. ?F = Some y)"
        using False s by (auto simp: holidayProgress_def Let_def f split: option.splits)
      have b: "(\<exists>y. ?B = Some y) \<longleftrightarrow> (\<exists>a<localDay currentDate. \<not> restDayOf P (h_getName h) a)"
        using scanBack_Some [of P "h_getName h" currentDate]
          scanBack_returns [of _ currentDate P "h_getName h"] by auto
      have fw: "(\<exists>y. ?F = Some y) \<longleftrightarrow> (\<exists>b>localDay currentDate. \<not> restDayOf P (h_getName h) b)"
        using scanForward_Some [of P "h_getName h" currentDate]
          scanForward_returns [of currentDate _ P "h_getName h"] by auto
      show ?thesis unfolding hp b fw using None s False by simp
    qed
  qed
qed

theorem holidayProgress_returns_iff_witness:
  "(\<exists>a<localDay sampleNow. \<not> restDayOf springFestival ''Spring Festival'' a)
   \<and> (\<exists>b>localDay sampleNow. \<not> restDayOf springFestival ''Spring Festival'' b)
   \<and> (\<exists>r. holidayProgress springFestival sampleNow [] = Some r)"
proof -
  have n: "getHoliday springFestival (getFullYear sampleNow) (getMonth sampleNow + 1)
      (getDate sampleNow) = Some \<lparr>h_isWork = False, h_getName = ''Spring Festival''\<rparr>"
    using feb_2026_day [of 22]
    by (simp add: sampleNow_def getFullYear_def getMonth_def getDate_def springFestival_def)
  have a: "\<exists>a<localDay sampleNow. \<not> restDayOf springFestival ''Spring Festival'' a"
    using springFestival_rest [of 14 "''Spring Festival''"]
    by (intro exI [of _ 20498]) (simp add: sampleNow_def)
  have b: "\<exists>b>localDay sampleNow. \<not> restDayOf springFestival ''Spring Festival'' b"
    using springFestival_rest [of 24 "''Spring Festival''"]
    by (intro exI [of _ 20508]) (simp add: sampleNow_def)
  from holidayProgress_returns_iff [of springFestival sampleNow "[]"] n a b
  show ?thesis by simp
qed

section \<open>Properties of the session state\<close>

text \<open>
  C9. For every set of marks and every day, a toggle flips the membership of the key of
  the day (a key that is present becomes absent, a key that is absent becomes present)
  and leaves every other key as it is; so toggling the day twice gives the set back.
\<close>

theorem toggleMark_flips_twice:
  "(formatYMD d \<in> toggleMark d marked \<longleftrightarrow> formatYMD d \<notin> marked)
   \<and> (\<forall>k. k \<noteq> formatYMD d \<longrightarrow> (k \<in> toggleMark d marked \<longleftrightarrow> k \<in> marked))
   \<and> toggleMark d (toggleMark d marked) = marked"
  by (auto simp: toggleMark_def Let_def)

theorem toggleMark_flips_twice_witness:
  "formatYMD \<lparr>localDay = 20506, msInDay = 0\<rparr> = ''2026-02-22''
   \<and> ''2026-02-22'' \<notin> {''2026-02-20''}
   \<and> ''2026-02-22'' \<in> toggleMark \<lparr>localDay = 20506, msInDay = 0\<rparr> {''2026-02-20''}
   \<and> ''2026-02-20'' \<in> toggleMark \<lparr>localDay = 20506, msInDay = 0\<rparr> {''2026-02-20''}
   \<and> ''2026-02-22'' \<notin> toggleMark \<lparr>localDay = 20506, msInDay = 0\<rparr> {''2026-02-20'', ''2026-02-22''}
   \<and> toggleMark \<lparr>localDay = 20506, msInDay = 0\<rparr>
         (toggleMark \<lparr>localDay = 20506, msInDay = 0\<rparr> {''2026-02-20''}) = {''2026-02-20''}"
  using toggleMark_flips_twice [of "\<lparr>localDay = 20506, msInDay = 0\<rparr>" "{''2026-02-20''}"]
    toggleMark_flips_twice [of "\<lparr>localDay = 20506, msInDay = 0\<rparr>"
      "{''2026-02-20'', ''2026-02-22''}"]
  by (simp add: sample_parse)

text \<open>
  What the guard of \<open>handleSaveCustomHoliday\<close> does: when no date is selected, the name
  or the end key is empty, or the end key is below the key of the selected date as a
  string, the whole state stays as it is.
\<close>

lemma handleSave_guard:
  assumes "selectedDate st = None \<or> holidayNameInput st = [] \<or> holidayEndInput st = []
         \<or> (\<exists>sd. selectedDate st = Some sd \<and> holidayEndInput st < formatYMD sd)"
  shows "handleSaveCustomHoliday now st = st"
  using assms by (auto simp: handleSaveCustomHoliday_def Let_def split: option.split)

lemma year_10000_digits:
  "natToString 10000 = ''10000''" "natToString 9999 = ''9999''"
  "natToString 12 = ''12''" "natToString 31 = ''31''" "natToString (Suc 0) = ''1''"
  by (simp_all add: natToString.simps [of 10000] natToString.simps [of 1000]
      natToString.simps [of 100] natToString.simps [of 10] natToString.simps [of "Suc 0"]
      natToString.simps [of 9999] natToString.simps [of 999] natToString.simps [of 99]
      natToString.simps [of 9] natToString.simps [of 12] natToString.simps [of 31]
      natToString.simps [of 3] digitChar_def)

lemma year_10000_civil:
  "yearFromDay 2932897 = 10000" "monthFromDay 2932897 = 0" "dateFromDay 2932897 = 1"
  "yearFromDay 2932896 = 9999" "monthFromDay 2932896 = 11" "dateFromDay 2932896 = 31"
proof -
  show y: "yearFromDay 2932897 = 10000" "yearFromDay 2932896 = 9999"
    by (simp_all add: yearFromDay_def dayFromYear_def Let_def)
  have l: "isLeapYear 10000" "\<not> isLeapYear 9999" by (simp_all add: isLeapYear_def)
  have d: "dayWithinYear 2932897 = 0" "dayWithinYear 2932896 = 364"
    by (simp_all add: dayWithinYear_def y dayFromYear_def)
  show m: "monthFromDay 2932897 = 0" "monthFromDay 2932896 = 11"
    by (simp_all add: monthFromDay_def d y l Let_def)
  show "dateFromDay 2932897 = 1" "dateFromDay 2932896 = 31"
    by (simp_all add: dateFromDay_def d y l m monthStart_def Let_def)
qed

lemma year_10000_keys:
  "formatYMD \<lparr>localDay = 2932897, msInDay = 0\<rparr> = ''10000-01-01''"
  "formatYMD \<lparr>localDay = 2932896, msInDay = 0\<rparr> = ''9999-12-31''"
  by (simp_all add: formatYMD_def getFullYear_def getMonth_def getDate_def year_10000_civil
      addLeadingZeros_def padStart_def year_10000_digits Let_def)

text \<open>
  C8 at a start date in the year 10000. The guard compares the end key with the key of
  the selected date as strings. The key of 1 January 10000 has five digits of year, and
  \<open>9999-12-31\<close> is not below \<open>10000-01-01\<close> as a string, so the end date 9999-12-31, one
  day before the start date, passes the guard and the holiday is added.
\<close>

theorem handleSave_year_10000:
  "selectedDate sampleStateY10K = Some \<lparr>localDay = 2932897, msInDay = 0\<rparr>
   \<and> formatYMD \<lparr>localDay = 2932897, msInDay = 0\<rparr> = ''10000-01-01''
   \<and> holidayEndInput sampleStateY10K = formatYMD \<lparr>localDay = 2932896, msInDay = 0\<rparr>
   \<and> holidayEndInput sampleStateY10K = ''9999-12-31''
   \<and> customHolidays sampleStateY10K = []
   \<and> map (\<lambda>h. (ch_name h, ch_start h, ch_end h))
         (customHolidays (handleSaveCustomHoliday now sampleStateY10K))
       = [(''X'', ''10000-01-01'', ''9999-12-31'')]
   \<and> handleSaveCustomHoliday now sampleStateY10K \<noteq> sampleStateY10K"
proof -
  have c: "customHolidays (handleSaveCustomHoliday now sampleStateY10K) =
      [\<lparr>ch_id = natToString now, ch_name = ''X'', ch_start = ''10000-01-01'',
        ch_end = ''9999-12-31''\<rparr>]"
    by (simp add: handleSaveCustomHoliday_def sampleStateY10K_def Let_def year_10000_keys)
  then have "customHolidays (handleSaveCustomHoliday now sampleStateY10K)
      \<noteq> customHolidays sampleStateY10K"
    by (simp add: sampleStateY10K_def)
  then have "handleSaveCustomHoliday now sampleStateY10K \<noteq> sampleStateY10K" by auto
  with c show ?thesis by (simp add: sampleStateY10K_def year_10000_keys)
qed

end
